theory Spec2Isabelle
  imports Main "HOL-Library.AList" "HOL-Library.Char_ord" "HOL-Library.List_Lexorder"
    "HOL-Library.Sublist"
begin

section \<open>JSON values and Python's operations on them\<close>

text \<open>
  The values \<open>json.loads\<close> produces: \<open>None\<close>, booleans, integers, strings, lists and
  dictionaries with string keys. A dictionary is an association list in insertion order, as
  Python's \<open>dict\<close> keeps it. Floating-point numbers do not occur in the data of this program
  (every stored field is a string, a list or an object) and are left out. A Python \<open>str\<close> is a
  \<open>string\<close>, a character beyond ASCII being its UTF-8 bytes; the byte-wise lexicographic order
  of \<open>HOL-Library.List_Lexorder\<close> is then Python's order by code points.
\<close>

datatype json =
    JNull
  | JBool bool
  | JInt int
  | JStr string
  | JArr "json list"
  | JObj "(string \<times> json) list"

text \<open>The exceptions the program can meet. All of them derive from \<open>Exception\<close>.\<close>

datatype error =
    KeyError string
  | TypeError
  | AttributeError
  | JSONDecodeError
  | RemoteCallFailure string

text \<open>A dictionary has every key once.\<close>

fun wf_json :: "json \<Rightarrow> bool" where
  "wf_json (JArr xs) = (\<forall>x \<in> set xs. wf_json x)"
| "wf_json (JObj kvs) = (distinct (map fst kvs) \<and> (\<forall>kv \<in> set kvs. wf_json (snd kv)))"
| "wf_json _ = True"

text \<open>Sequencing of computations that may raise.\<close>

definition ebind :: "error + 'a \<Rightarrow> ('a \<Rightarrow> error + 'b) \<Rightarrow> error + 'b" where
  "ebind m f = (case m of Inl e \<Rightarrow> Inl e | Inr x \<Rightarrow> f x)"

text \<open>
  \<open>k in x\<close> for a string \<open>k\<close>: key membership in a dictionary, element membership in a list,
  substring test in a string, \<open>TypeError\<close> on a value that is not iterable.
\<close>

fun py_contains :: "string \<Rightarrow> json \<Rightarrow> error + bool" where
  "py_contains k (JObj kvs) = Inr (k \<in> fst ` set kvs)"
| "py_contains k (JArr xs) = Inr (JStr k \<in> set xs)"
| "py_contains k (JStr s) = Inr (sublist k s)"
| "py_contains k _ = Inl TypeError"

text \<open>\<open>x[k]\<close> for a string \<open>k\<close>: only a dictionary can be indexed by a string.\<close>

fun py_getitem :: "json \<Rightarrow> string \<Rightarrow> error + json" where
  "py_getitem (JObj kvs) k = (case map_of kvs k of None \<Rightarrow> Inl (KeyError k) | Some v \<Rightarrow> Inr v)"
| "py_getitem _ k = Inl TypeError"

text \<open>
  \<open>x[k] = v\<close> for a string \<open>k\<close>: a dictionary overwrites the value of a present key in place
  and appends an absent one; every other value raises \<open>TypeError\<close>.
\<close>

fun py_setitem :: "json \<Rightarrow> string \<Rightarrow> json \<Rightarrow> error + json" where
  "py_setitem (JObj kvs) k v = Inr (JObj (AList.update k v kvs))"
| "py_setitem _ k v = Inl TypeError"

text \<open>\<open>x.get(k, d)\<close>: only a dictionary has the method.\<close>

fun py_get :: "json \<Rightarrow> string \<Rightarrow> json \<Rightarrow> error + json" where
  "py_get (JObj kvs) k d = Inr (case map_of kvs k of None \<Rightarrow> d | Some v \<Rightarrow> v)"
| "py_get _ k d = Inl AttributeError"

section \<open>The environment and the state\<close>

text \<open>
  The shapes (\<open>text_format\<close>) of the four structured extraction calls, and the requests the
  program sends to the remote service: \<open>client.responses.parse\<close> with its model, input and
  shape, and \<open>client.chat.completions.create\<close> with its model and the content of its one
  user message.
\<close>

datatype shape =
    CompanyDetails
  | CompanyNewsResponse
  | CompanyPersonnelResponse
  | CompanyPersonnelNewsResponse

datatype event =
    ResponsesParse string string shape
  | ChatCreate string string

text \<open>
  What the program uses and does not define: the \<open>json\<close> module (\<open>loads\<close>, which gives
  \<open>None\<close> where Python raises a decoding error, \<open>dumps\<close> and \<open>dumps\<close> with \<open>indent=2\<close>),
  pydantic's \<open>model_dump_json\<close>, the remote service and the clock. The service and the clock
  answer as functions of the requests sent so far, so that two equal requests may get
  different answers. A structured call answers with an error or with \<open>output_parsed\<close>, which
  may be \<open>None\<close>; a chat call with an error or the content of the first choice.
\<close>

record env =
  loads :: "string \<Rightarrow> json option"
  dumps :: "json \<Rightarrow> string"
  dumps_indent :: "json \<Rightarrow> string"
  model_dump_json :: "json \<Rightarrow> string"
  responses_parse :: "event list \<Rightarrow> event \<Rightarrow> error + json option"
  chat_create :: "event list \<Rightarrow> event \<Rightarrow> error + string"
  now_isoformat :: "event list \<Rightarrow> string"

text \<open>
  The law of the \<open>json\<close> module the persistence layer relies on: what \<open>loads\<close> returns is a
  well-formed value, and a well-formed value that was dumped loads back unchanged.
\<close>

definition json_roundtrip :: "env \<Rightarrow> bool" where
  "json_roundtrip E \<longleftrightarrow>
     (\<forall>t v. loads E t = Some v \<longrightarrow> wf_json v) \<and>
     (\<forall>v. wf_json v \<longrightarrow> loads E (dumps E v) = Some v) \<and>
     (\<forall>v. wf_json v \<longrightarrow> loads E (dumps_indent E v) = Some v)"

text \<open>
  The state: the two files (\<open>None\<close> when the file does not exist; a write always succeeds),
  the requests sent to the remote service so far, the lines the scheduler has printed, each
  kept as the company and the exception it is formatted from, and the exceptions that
  \<open>st.error\<close> has shown on the page.
\<close>

record state =
  watchlist_file :: "string option"
  company_data_file :: "string option"
  history :: "event list"
  stdout :: "(string \<times> error) list"
  st_error :: "error list"

definition fresh :: state where
  "fresh =
     \<lparr>watchlist_file = None, company_data_file = None, history = [], stdout = [], st_error = []\<rparr>"

section \<open>Persistence helpers (main.py)\<close>

text \<open>
  \<open>load_watchlist\<close>: the parsed file, or the empty list when the file does not exist or
  reading or parsing it raises.
\<close>

definition load_watchlist :: "env \<Rightarrow> state \<Rightarrow> json" where
  "load_watchlist E s =
     (case watchlist_file s of
        None \<Rightarrow> JArr []
      | Some t \<Rightarrow> (case loads E t of None \<Rightarrow> JArr [] | Some v \<Rightarrow> v))"

text \<open>\<open>save_watchlist\<close>: \<open>json.dumps(sorted(set(watchlist)))\<close> overwrites the file.\<close>

definition save_watchlist :: "env \<Rightarrow> string list \<Rightarrow> state \<Rightarrow> state" where
  "save_watchlist E watchlist s =
     s\<lparr>watchlist_file := Some (dumps E (JArr (map JStr (sort (remdups watchlist)))))\<rparr>"

definition load_company_data :: "env \<Rightarrow> state \<Rightarrow> json" where
  "load_company_data E s =
     (case company_data_file s of
        None \<Rightarrow> JObj []
      | Some t \<Rightarrow> (case loads E t of None \<Rightarrow> JObj [] | Some v \<Rightarrow> v))"

text \<open>
  \<open>save_company_data\<close>: \<open>all_data[company]["final_summary"] = data\<close> reads the company's
  record, which must be there, stores into it, and the whole store is written back. The
  record is changed in place, so the store holds the changed record under the same key.
\<close>

definition save_company_data :: "env \<Rightarrow> string \<Rightarrow> json \<Rightarrow> state \<Rightarrow> (error + unit) \<times> state" where
  "save_company_data E company data s =
     (let all_data = load_company_data E s in
      case ebind (py_getitem all_data company) (\<lambda>record.
           ebind (py_setitem record ''final_summary'' data) (\<lambda>record'.
           py_setitem all_data company record')) of
        Inl e \<Rightarrow> (Inl e, s)
      | Inr all_data' \<Rightarrow> (Inr (), s\<lparr>company_data_file := Some (dumps_indent E all_data')\<rparr>))"

text \<open>
  \<open>get_company_data\<close>: \<open>load_company_data().get(company, {}).get("final_summary")\<close>; Python's
  \<open>None\<close> is \<open>JNull\<close>.
\<close>

definition get_company_data :: "env \<Rightarrow> string \<Rightarrow> state \<Rightarrow> error + json" where
  "get_company_data E company s =
     ebind (py_get (load_company_data E s) company (JObj [])) (\<lambda>record.
     py_get record ''final_summary'' JNull)"

text \<open>
  \<open>save_intermediate_data\<close>: the record is created when the company is not in the store;
  in \<open>all_data[company][key] = json.loads(data)\<close> the right-hand side is evaluated first.
\<close>

definition save_intermediate_data ::
  "env \<Rightarrow> string \<Rightarrow> string \<Rightarrow> string \<Rightarrow> state \<Rightarrow> (error + unit) \<times> state" where
  "save_intermediate_data E company key data s =
     (let all_data = load_company_data E s in
      case ebind (py_contains company all_data) (\<lambda>present.
           ebind (if present then Inr all_data else py_setitem all_data company (JObj [])) (\<lambda>all_data1.
           ebind (case loads E data of None \<Rightarrow> Inl JSONDecodeError | Some v \<Rightarrow> Inr v) (\<lambda>v.
           ebind (py_getitem all_data1 company) (\<lambda>record.
           ebind (py_setitem record key v) (\<lambda>record'.
           py_setitem all_data1 company record'))))) of
        Inl e \<Rightarrow> (Inl e, s)
      | Inr all_data' \<Rightarrow> (Inr (), s\<lparr>company_data_file := Some (dumps_indent E all_data')\<rparr>))"

section \<open>Prompt builders (company\_personnel.py, company\_data.py, main.py)\<close>

text \<open>
  What the f-strings use: \<open>str\<close> of an integer, \<open>sep.join(xs)\<close>, and \<open>d[k]\<close> on the dictionary
  of trusted sources, which raises \<open>KeyError\<close> for a missing category.
\<close>

function str_nat :: "nat \<Rightarrow> string" where
  "str_nat n =
     (if n < 10 then [char_of (48 + n)] else str_nat (n div 10) @ [char_of (48 + n mod 10)])"
  by pat_completeness auto
termination
  by (relation "measure id") auto

declare str_nat.simps [simp del]

definition str_int :: "int \<Rightarrow> string" where
  "str_int i = (if i < 0 then CHR ''-'' # str_nat (nat (- i)) else str_nat (nat i))"

fun join :: "string \<Rightarrow> string list \<Rightarrow> string" where
  "join sep [] = []"
| "join sep [x] = x"
| "join sep (x # y # ys) = x @ sep @ join sep (y # ys)"

definition dict_getitem :: "(string \<times> 'v) list \<Rightarrow> string \<Rightarrow> error + 'v" where
  "dict_getitem d k = (case map_of d k of None \<Rightarrow> Inl (KeyError k) | Some v \<Rightarrow> Inr v)"

text \<open>
  The templates are the f-strings of the source, one line of the source per line here, a
  character beyond ASCII as its UTF-8 bytes; \<open>print\<close> calls are left out throughout, but
  for the scheduler's error line.
\<close>

definition format_prompt_get_company_personnel :: "string \<Rightarrow> string" where
  \<open>format_prompt_get_company_personnel company =
     concat
     [''\<newline>'',
      ''You are expert in finding the key personnel of a company.\<newline>'',
      ''\<newline>'',
      ''You are given a company name and you need to find the key personnel of the company.\<newline>'',
      ''\<newline>'',
      ''You need to find the key personnel of the company from the following sources:\<newline>'',
      ''\<newline>'',
      ''Sources:\<newline>'',
      ''- LinkedIn\<newline>'',
      ''- X (Twitter)\<newline>'',
      ''- Company blog\<newline>'',
      ''- Press releases\<newline>'',
      ''\<newline>'',
      ''Return the key personnel in the following format:\<newline>'',
      ''\<newline>'',
      ''json format (leave blank if you don't find the information):\<newline>'',
      ''[\<newline>'',
      ''  {"name": "John Doe",\<newline>'',
      ''    "role": "CEO",\<newline>'',
      ''    "linkedin": "https://www.linkedin.com/in/john-doe",\<newline>'',
      ''    "x": "https://x.com/john-doe"\<newline>'',
      ''  }\<newline>'',
      '']\<newline>'',
      ''\<newline>'',
      ''<<TARGET_COMPANY>>: '',
      company,
      ''\<newline>'']\<close>

definition format_prompt_company_personnel_news_prompt ::
  "string \<Rightarrow> string \<Rightarrow> int \<Rightarrow> (string \<times> string list) list \<Rightarrow> error + string" where
  \<open>format_prompt_company_personnel_news_prompt company personnel days sources =
     ebind (dict_getitem sources ''gaming_industry'') (\<lambda>gaming.
     ebind (dict_getitem sources ''business_sources'') (\<lambda>business.
     ebind (dict_getitem sources ''company_channels'') (\<lambda>channels.
     let gaming_sources = join ''\<newline>    - '' gaming;
         business_sources = join ''\<newline>    - '' business;
         company_channels = join ''\<newline>    - '' channels
     in Inr (concat
      [''\<newline>'',
       ''    Given the company name and the key personnel of the company, you need to find all the news for each of the key personnel in last '',
       str_int days,
       '' days.\<newline>'',
       ''    \<newline>'',
       ''    You need to find the news for each of the key personnel from the following sources:\<newline>'',
       ''    Sources:\<newline>'',
       ''    gaming industry: '',
       gaming_sources,
       ''\<newline>'',
       ''    business sources: '',
       business_sources,
       ''\<newline>'',
       ''    company channels: '',
       company_channels,
       ''\<newline>'',
       ''\<newline>'',
       ''    For each news you find, classify the news into the following categories:\<newline>'',
       ''    - Positive\<newline>'',
       ''    - Negative\<newline>'',
       ''    - Neutral\<newline>'',
       ''\<newline>'',
       ''    Return the news in the following format:\<newline>'',
       ''    [\<newline>'',
       ''        {\<newline>'',
       ''            "source_link": "https://www.linkedin.com/in/john-doe",\<newline>'',
       ''            "news": "Summary of the news",\<newline>'',
       ''            "date": "2025-01-01",\<newline>'',
       ''            "sentiment": "positive",\<newline>'',
       ''        }\<newline>'',
       ''    ]\<newline>'',
       ''    Prioritise launches, funding, layoffs, hires, licensing, expansion, M&A, KPI milestones, exec thought-leadership, personnel posts.\<newline>'',
       ''    You must atleast 5 news in total.\<newline>'',
       ''    <TARGET_COMPANY>: '',
       company,
       ''\<newline>'',
       ''    <KEY_PERSONNEL>: '',
       personnel,
       ''\<newline>'',
       ''\<newline>'']))))\<close>

definition format_prompt_get_company_details :: "string \<Rightarrow> string" where
  \<open>format_prompt_get_company_details company =
     concat
     [''\<newline>'',
      ''You are given a company name and you need to find the key details of the company.\<newline>'',
      ''\<newline>'',
      ''You need to find the key details of the company from the following sources:\<newline>'',
      ''\<newline>'',
      ''Sources:\<newline>'',
      ''- LinkedIn\<newline>'',
      ''- X (Twitter)\<newline>'',
      ''- Company blog\<newline>'',
      ''- Press releases\<newline>'',
      ''\<newline>'',
      ''Return the key details in the following format:\<newline>'',
      ''\<newline>'',
      ''json format:\<newline>'',
      ''{"name": "Company Name",\<newline>'',
      ''    "country": "Country of Registration",\<newline>'',
      ''    "business_type": "Business Type",\<newline>'',
      ''    "any_other_details": "Any other details"\<newline>'',
      ''}\<newline>'',
      ''\<newline>'',
      ''\<newline>'',
      ''<<TARGET_COMPANY>>: '',
      company,
      ''\<newline>'']\<close>

definition format_prompt_company_news_prompt ::
  "string \<Rightarrow> string \<Rightarrow> int \<Rightarrow> (string \<times> string list) list \<Rightarrow> error + string" where
  \<open>format_prompt_company_news_prompt company company_details days sources =
     ebind (dict_getitem sources ''gaming_industry'') (\<lambda>gaming.
     ebind (dict_getitem sources ''business_sources'') (\<lambda>business.
     ebind (dict_getitem sources ''company_channels'') (\<lambda>channels.
     let gaming_sources = join ''\<newline>    - '' gaming;
         business_sources = join ''\<newline>    - '' business;
         company_channels = join ''\<newline>    - '' channels
     in Inr (concat
      [''\<newline>'',
       ''    Given the company name company details and the news sources, you need to find all the news for the company in last '',
       str_int days,
       '' days.\<newline>'',
       ''        \<newline>'',
       ''    You need to find all news from any of the following sources for the company in the last '',
       str_int days,
       '' days:\<newline>'',
       ''    Sources:\<newline>'',
       ''    gaming industry: '',
       gaming_sources,
       ''\<newline>'',
       ''    business sources: '',
       business_sources,
       ''\<newline>'',
       ''    company channels: '',
       company_channels,
       ''\<newline>'',
       ''\<newline>'',
       ''    and classify the news into the following categories:\<newline>'',
       ''    - Positive\<newline>'',
       ''    - Negative\<newline>'',
       ''    - Neutral\<newline>'',
       ''\<newline>'',
       ''    Return the news in the following format:\<newline>'',
       ''    [\<newline>'',
       ''        {\<newline>'',
       ''            "source_link": "https://venturebeat.com/2025/01/01/company-launches-new-product",\<newline>'',
       ''            "news": "Summary of the news",\<newline>'',
       ''            "date": "2025-01-01",\<newline>'',
       ''            "sentiment": "positive"\<newline>'',
       ''        }\<newline>'',
       ''    ]\<newline>'',
       ''    Prioritise launches, funding, layoffs, hires, licensing, expansion, M&A, KPI milestones, exec thought-leadership, personnel posts.\<newline>'',
       ''\<newline>'',
       ''    <TARGET_COMPANY>: '',
       company,
       ''\<newline>'',
       ''    <COMPANY_DETAILS>: '',
       company_details,
       ''\<newline>'',
       ''\<newline>'']))))\<close>

definition format_prompt :: "string \<Rightarrow> string \<Rightarrow> string \<Rightarrow> string \<Rightarrow> string \<Rightarrow> string" where
  \<open>format_prompt company personnel personnel_news company_details company_news =
     concat
     [''\<newline>'',
      [CHR 0xF0, CHR 0x9F, CHR 0xA7, CHR 0xA0],
      '' Prompt for a News AI Agent (Gaming-Focused)\<newline>'',
      ''You are a News Intelligence Agent trained to monitor and summarize financial-impacting developments for mobile gaming companies and apps. \<newline>'',
      ''I will give you all the relevant information about the company and the key personnel and their news. I want you to format the information. Add comments if needed.\<newline>'',
      ''\<newline>'',
      ''FORMAT THE GIVEN INFORMATION IN A READABLE FORMAT.\<newline>'',
      ''\<newline>'',
      ''<TARGET_COMPANY>: '',
      company,
      ''\<newline>'',
      ''<PERSONNEL>: '',
      personnel,
      ''\<newline>'',
      ''<PERSONNEL_NEWS>: '',
      personnel_news,
      ''\<newline>'',
      ''<COMPANY_DETAILS>: '',
      company_details,
      ''\<newline>'',
      ''<COMPANY_NEWS>: '',
      company_news,
      ''\<newline>'',
      ''\<newline>'',
      ''**Output (nothing else):**\<newline>'',
      ''\<newline>'',
      ''### Company Details\<newline>'',
      ''- Details of the company\<newline>'',
      ''\<newline>'',
      ''### Key Personnel\<newline>'',
      ''- Details of the key personnel\<newline>'',
      ''\<newline>'',
      ''### '',
      [CHR 0xF0, CHR 0x9F, CHR 0x93, CHR 0xB0],
      '' Company News (Past 6 Months) [Ensure that the source link is mentioned in the citation]\<newline>'',
      ''| Sentiment('',
      [CHR 0xE2, CHR 0x9C, CHR 0x85],
      ''/Neutral/'',
      [CHR 0xE2, CHR 0x9D, CHR 0x8C],
      '') | Source | Headline | Summary ('',
      [CHR 0xE2, CHR 0x89, CHR 0xA4],
      '' 30 words) | [Citation-Mention the source link] |\<newline>'',
      ''|------|--------|----------|----------------------|------------|\<newline>'',
      ''| ...... |\<newline>'',
      ''\<newline>'',
      ''### '',
      [CHR 0xF0, CHR 0x9F, CHR 0x93, CHR 0xB0],
      '' Key Personnel News (Past 6 Months) [Ensure that the source link is mentioned in the citation]\<newline>'',
      ''| Sentiment('',
      [CHR 0xE2, CHR 0x9C, CHR 0x85],
      ''/Neutral/'',
      [CHR 0xE2, CHR 0x9D, CHR 0x8C],
      '') | Source | Headline | Summary ('',
      [CHR 0xE2, CHR 0x89, CHR 0xA4],
      '' 30 words) | [Citation-Mention the source link] |\<newline>'',
      ''|------|--------|----------|----------------------|------------|\<newline>'',
      ''| ...... |\<newline>'',
      ''\<newline>'',
      ''### '',
      [CHR 0xE2, CHR 0x9A, CHR 0xA1],
      '' Financial & Strategic Sentiment\<newline>'',
      [CHR 0xE2, CHR 0x9E, CHR 0xA1, CHR 0xEF, CHR 0xB8, CHR 0x8F],
      '' Positive / Negative / Neutral '',
      [CHR 0xE2, CHR 0x80, CHR 0x94],
      '' *one-sentence justification.*\<newline>'',
      ''\<newline>'',
      ''*Do not output any content outside the sections above.*\<newline>'',
      ''\<newline>'']\<close>

section \<open>Programs over the state\<close>

text \<open>
  A program takes the state and returns a value or the exception it raised, with the state
  it leaves behind.
\<close>

type_synonym 'a prog = "state \<Rightarrow> (error + 'a) \<times> state"

definition return :: "'a \<Rightarrow> 'a prog" where
  "return x s = (Inr x, s)"

definition throw :: "error \<Rightarrow> 'a prog" where
  "throw e s = (Inl e, s)"

definition then_do :: "'a prog \<Rightarrow> ('a \<Rightarrow> 'b prog) \<Rightarrow> 'b prog" where
  "then_do m f s = (case m s of (Inl e, s') \<Rightarrow> (Inl e, s') | (Inr x, s') \<Rightarrow> f x s')"

text \<open>\<open>try: m except Exception as e: h(e)\<close>.\<close>

definition try_except :: "'a prog \<Rightarrow> (error \<Rightarrow> 'a prog) \<Rightarrow> 'a prog" where
  "try_except m h s = (case m s of (Inl e, s') \<Rightarrow> h e s' | (Inr x, s') \<Rightarrow> (Inr x, s'))"

section \<open>Structured extraction (company\_personnel.py, company\_data.py)\<close>

definition client_responses_parse :: "env \<Rightarrow> string \<Rightarrow> string \<Rightarrow> shape \<Rightarrow> json option prog" where
  "client_responses_parse E model input text_format s =
     (let request = ResponsesParse model input text_format
      in (responses_parse E (history s) request, s\<lparr>history := history s @ [request]\<rparr>))"

definition client_chat_completions_create :: "env \<Rightarrow> string \<Rightarrow> string \<Rightarrow> string prog" where
  "client_chat_completions_create E model content s =
     (let request = ChatCreate model content
      in (chat_create E (history s) request, s\<lparr>history := history s @ [request]\<rparr>))"

text \<open>\<open>MODEL_NAME\<close> of the two extraction modules.\<close>

definition extraction_MODEL_NAME :: string where
  "extraction_MODEL_NAME = ''gpt-4o''"

text \<open>
  \<open>res.model_dump_json(indent=2)\<close> on the parsed output: \<open>AttributeError\<close> when
  \<open>output_parsed\<close> is \<open>None\<close>.
\<close>

definition dump_parsed :: "env \<Rightarrow> json option \<Rightarrow> string prog" where
  "dump_parsed E res = (case res of None \<Rightarrow> throw AttributeError | Some r \<Rightarrow> return (model_dump_json E r))"

definition get_company_personnel :: "env \<Rightarrow> string \<Rightarrow> string prog" where
  "get_company_personnel E company =
     then_do (client_responses_parse E extraction_MODEL_NAME
                (format_prompt_get_company_personnel company) CompanyPersonnelResponse)
       (dump_parsed E)"

text \<open>The prompt is an argument of the call: a builder that raises sends no request.\<close>

definition get_company_personnel_news ::
  "env \<Rightarrow> string \<Rightarrow> string \<Rightarrow> int \<Rightarrow> (string \<times> string list) list \<Rightarrow> string prog" where
  "get_company_personnel_news E company personnel days sources =
     (case format_prompt_company_personnel_news_prompt company personnel days sources of
        Inl e \<Rightarrow> throw e
      | Inr input \<Rightarrow>
          then_do (client_responses_parse E extraction_MODEL_NAME input CompanyPersonnelNewsResponse)
            (dump_parsed E))"

definition get_company_details :: "env \<Rightarrow> string \<Rightarrow> string prog" where
  "get_company_details E company =
     then_do (client_responses_parse E extraction_MODEL_NAME
                (format_prompt_get_company_details company) CompanyDetails)
       (dump_parsed E)"

definition get_company_news ::
  "env \<Rightarrow> string \<Rightarrow> string \<Rightarrow> int \<Rightarrow> (string \<times> string list) list \<Rightarrow> string prog" where
  "get_company_news E company company_details days sources =
     (case format_prompt_company_news_prompt company company_details days sources of
        Inl e \<Rightarrow> throw e
      | Inr input \<Rightarrow>
          then_do (client_responses_parse E extraction_MODEL_NAME input CompanyNewsResponse)
            (dump_parsed E))"

section \<open>The pipeline and its callers (main.py)\<close>

definition NUMBER_OF_DAYS :: int where
  "NUMBER_OF_DAYS = 180"

definition MODEL_NAME :: string where
  "MODEL_NAME = ''gpt-4.1''"

definition TRUSTED_NEWS_SOURCES :: "(string \<times> string list) list" where
  "TRUSTED_NEWS_SOURCES =
     [(''gaming_industry'',
         [''Pocket Gamer'', ''PocketGamer.biz'', ''Gamezebo'', ''Deconstructor of Fun'', ''IGN'',
          ''Gamespot'', ''Kotaku'', ''VentureBeat (GamesBeat)'']),
      (''business_sources'', [''TechCrunch'', ''Bloomberg'', ''Reuters'']),
      (''company_channels'',
         [''LinkedIn posts'', ''X (Twitter) posts'', ''Company blog'', ''Press releases''])]"

text \<open>
  \<open>run_news_agent\<close>: four extraction stages, the first three each followed by the save of
  its result (the save of \<open>company_news\<close> is commented out in the source), then the chat
  completion on the formatted prompt, whose content is returned.
\<close>

definition run_news_agent :: "env \<Rightarrow> string \<Rightarrow> string prog" where
  "run_news_agent E company =
     then_do (get_company_personnel E company) (\<lambda>personnel.
     then_do (save_intermediate_data E company ''personnel'' personnel) (\<lambda>_.
     then_do (get_company_personnel_news E company personnel NUMBER_OF_DAYS TRUSTED_NEWS_SOURCES)
       (\<lambda>personnel_news.
     then_do (save_intermediate_data E company ''personnel_news'' personnel_news) (\<lambda>_.
     then_do (get_company_details E company) (\<lambda>company_details.
     then_do (save_intermediate_data E company ''company_details'' company_details) (\<lambda>_.
     then_do (get_company_news E company company_details NUMBER_OF_DAYS TRUSTED_NEWS_SOURCES)
       (\<lambda>company_news.
     client_chat_completions_create E MODEL_NAME
       (format_prompt company personnel personnel_news company_details company_news))))))))"

text \<open>
  What both callers do with a company: run the callback, then save its summary with the
  time read after the callback has returned.
\<close>

definition final_summary :: "env \<Rightarrow> string \<Rightarrow> state \<Rightarrow> json" where
  "final_summary E summary s =
     JObj [(''summary'', JStr summary), (''timestamp'', JStr (now_isoformat E (history s)))]"

definition summarise_and_save :: "(string \<Rightarrow> string prog) \<Rightarrow> env \<Rightarrow> string \<Rightarrow> unit prog" where
  "summarise_and_save callback E company =
     then_do (callback company) (\<lambda>summary s. save_company_data E company (final_summary E summary s) s)"

text \<open>The line \<open>[Scheduler] Error processing {comp}: {exc}\<close> on standard output.\<close>

definition print_scheduler_error :: "string \<Rightarrow> error \<Rightarrow> unit prog" where
  "print_scheduler_error company exc s = (Inr (), s\<lparr>stdout := stdout s @ [(company, exc)]\<rparr>)"

text \<open>
  \<open>refresh_all\<close>, the job \<open>schedule_weekly_refresh\<close> registers: a loop over the watch-list
  the job was registered with, each company in its own \<open>try\<close>.
\<close>

fun refresh_all :: "(string \<Rightarrow> string prog) \<Rightarrow> env \<Rightarrow> string list \<Rightarrow> unit prog" where
  "refresh_all callback E [] = return ()"
| "refresh_all callback E (company # watchlist) =
     then_do (try_except (summarise_and_save callback E company) (print_scheduler_error company))
       (\<lambda>_. refresh_all callback E watchlist)"

section \<open>The page script (main.py, top level)\<close>

text \<open>The handler of the button Fetch Summary.\<close>

definition show_st_error :: "error \<Rightarrow> unit prog" where
  "show_st_error e s = (Inr (), s\<lparr>st_error := st_error s @ [e]\<rparr>)"

definition fetch_summary :: "env \<Rightarrow> string \<Rightarrow> unit prog" where
  "fetch_summary E company_input =
     try_except (summarise_and_save (run_news_agent E) E company_input) show_st_error"

text \<open>
  \<open>display_summary\<close>: nothing cached when the data is falsy; otherwise the timestamp and
  the summary are read from it. The calls that render are taken not to raise.
\<close>

fun py_truthy :: "json \<Rightarrow> bool" where
  "py_truthy JNull = False"
| "py_truthy (JBool b) = b"
| "py_truthy (JInt i) = (i \<noteq> 0)"
| "py_truthy (JStr s) = (s \<noteq> [])"
| "py_truthy (JArr xs) = (xs \<noteq> [])"
| "py_truthy (JObj kvs) = (kvs \<noteq> [])"

definition display_summary :: "env \<Rightarrow> string \<Rightarrow> state \<Rightarrow> error + unit" where
  "display_summary E company s =
     ebind (get_company_data E company s) (\<lambda>data.
     if \<not> py_truthy data then Inr ()
     else ebind (py_getitem data ''timestamp'') (\<lambda>_.
          ebind (py_getitem data ''summary'') (\<lambda>_. Inr ())))"

fun for_each :: "('a \<Rightarrow> error + unit) \<Rightarrow> 'a list \<Rightarrow> error + unit" where
  "for_each f [] = Inr ()"
| "for_each f (x # xs) = ebind (f x) (\<lambda>_. for_each f xs)"

text \<open>
  The watch-list in memory is a list of strings, as the source annotates it. A watch-list
  file that holds valid JSON of another kind is outside what the script is modelled for.
\<close>

fun json_str :: "json \<Rightarrow> string option" where
  "json_str (JStr s) = Some s"
| "json_str _ = None"

fun as_watchlist :: "json \<Rightarrow> string list option" where
  "as_watchlist (JArr xs) = those (map json_str xs)"
| "as_watchlist _ = None"

text \<open>
  The application: the state, and of the session the flag \<open>_scheduler_started\<close> with the
  watch-list that \<open>schedule_weekly_refresh\<close> was given. The job keeps that list object; the
  script binds \<open>watchlist\<close> to a new list each time it runs.
\<close>

record app =
  store :: state
  scheduler_started :: bool
  job :: "string list option"

definition app_start :: app where
  "app_start = \<lparr>store = fresh, scheduler_started = False, job = None\<rparr>"

datatype click = NoClick | FetchSummary | AddToWatchlist

text \<open>
  One run of the script, which Streamlit starts on every interaction, with the stripped
  text of the input and the button that was clicked (a button is disabled while the input is
  empty). An exception ends the run. The result is \<open>None\<close> where the watch-list file is
  outside the model.
\<close>

definition script_run :: "env \<Rightarrow> string \<Rightarrow> click \<Rightarrow> app \<Rightarrow> ((error + unit) \<times> app) option" where
  "script_run E company_input clicked a =
     (case as_watchlist (load_watchlist E (store a)) of
        None \<Rightarrow> None
      | Some watchlist \<Rightarrow>
          let s1 = (if clicked = FetchSummary \<and> company_input \<noteq> []
                    then snd (fetch_summary E company_input (store a)) else store a);
              adding = (clicked = AddToWatchlist \<and> company_input \<noteq> []
                        \<and> company_input \<notin> set watchlist);
              watchlist' = (if adding then watchlist @ [company_input] else watchlist);
              s2 = (if adding then save_watchlist E watchlist' s1 else s1)
          in case ebind (if company_input \<noteq> [] then display_summary E company_input s2 else Inr ())
                    (\<lambda>_. for_each (\<lambda>company. display_summary E company s2) watchlist') of
               Inl e \<Rightarrow> Some (Inl e, a\<lparr>store := s2\<rparr>)
             | Inr _ \<Rightarrow>
                 Some (Inr (),
                   if scheduler_started a then a\<lparr>store := s2\<rparr>
                   else a\<lparr>store := s2, scheduler_started := True, job := Some watchlist'\<rparr>))"

text \<open>The weekly trigger runs the registered job, if there is one.\<close>

definition weekly_trigger :: "env \<Rightarrow> app \<Rightarrow> (error + unit) \<times> app" where
  "weekly_trigger E a =
     (case job a of
        None \<Rightarrow> (Inr (), a)
      | Some watchlist \<Rightarrow>
          (case refresh_all (run_news_agent E) E watchlist (store a) of
             (r, s') \<Rightarrow> (r, a\<lparr>store := s'\<rparr>)))"

section \<open>Notions the properties are stated with\<close>

text \<open>A file that gives the empty default: it does not exist, or its text does not parse.\<close>

definition unreadable :: "env \<Rightarrow> string option \<Rightarrow> bool" where
  "unreadable E f = (case f of None \<Rightarrow> True | Some t \<Rightarrow> loads E t = None)"

text \<open>
  A store that can take a record of the company: a dictionary in which the company has no
  entry yet, or has a dictionary as its entry.
\<close>

definition admits_record :: "json \<Rightarrow> string \<Rightarrow> bool" where
  "admits_record all_data company =
     (case all_data of
        JObj kvs \<Rightarrow>
          (case map_of kvs company of None \<Rightarrow> True | Some (JObj fs) \<Rightarrow> True | Some _ \<Rightarrow> False)
      | _ \<Rightarrow> False)"

text \<open>The store holds a record, a dictionary, of the company.\<close>

definition has_record :: "json \<Rightarrow> string \<Rightarrow> bool" where
  "has_record all_data company =
     (case all_data of
        JObj kvs \<Rightarrow> (case map_of kvs company of Some (JObj fs) \<Rightarrow> True | _ \<Rightarrow> False)
      | _ \<Rightarrow> False)"

text \<open>The keys of the record the persisted store holds for a company.\<close>

definition record_keys :: "env \<Rightarrow> state \<Rightarrow> string \<Rightarrow> string set" where
  "record_keys E s company =
     (case load_company_data E s of
        JObj kvs \<Rightarrow> (case map_of kvs company of Some (JObj fs) \<Rightarrow> fst ` set fs | _ \<Rightarrow> {})
      | _ \<Rightarrow> {})"

definition allowed_keys :: "string set" where
  "allowed_keys = {''personnel'', ''personnel_news'', ''company_details'', ''final_summary''}"

text \<open>
  A request fails when the service answers it with an error, or answers a structured call
  with no parsed output, on which the stage raises.
\<close>

definition request_failed :: "env \<Rightarrow> event list \<Rightarrow> event \<Rightarrow> bool" where
  "request_failed E h request =
     (case request of
        ResponsesParse model input text_format \<Rightarrow>
          (case responses_parse E h request of Inl e \<Rightarrow> True | Inr None \<Rightarrow> True | Inr (Some r) \<Rightarrow> False)
      | ChatCreate model content \<Rightarrow>
          (case chat_create E h request of Inl e \<Rightarrow> True | Inr t \<Rightarrow> False))"

text \<open>
  A run from \<open>s\<close> to \<open>s'\<close> with result \<open>r\<close> stops at a failure: it only adds requests to the
  history, and a request of the run that fails is its last request and makes it raise.
\<close>

definition stops_at_failure :: "env \<Rightarrow> state \<Rightarrow> error + 'a \<Rightarrow> state \<Rightarrow> bool" where
  "stops_at_failure E s r s' \<longleftrightarrow>
     (\<exists>evs. history s' = history s @ evs \<and>
        (\<forall>pre request post. evs = pre @ request # post \<longrightarrow>
           request_failed E (history s @ pre) request \<longrightarrow> post = [] \<and> isl r))"

text \<open>
  The first request of the pipeline for a company, and the first-stage requests among a
  list of requests: the companies a job has processed, in order.
\<close>

definition personnel_request :: "string \<Rightarrow> event" where
  "personnel_request company =
     ResponsesParse extraction_MODEL_NAME (format_prompt_get_company_personnel company)
       CompanyPersonnelResponse"

fun is_first_stage :: "event \<Rightarrow> bool" where
  "is_first_stage (ResponsesParse model input text_format) = (text_format = CompanyPersonnelResponse)"
| "is_first_stage (ChatCreate model content) = False"

definition first_stage_requests :: "event list \<Rightarrow> event list" where
  "first_stage_requests evs = filter is_first_stage evs"

text \<open>The requests a step from \<open>s\<close> to \<open>s'\<close> has added to the history.\<close>

definition requests_between :: "state \<Rightarrow> state \<Rightarrow> event list" where
  "requests_between s s' = drop (length (history s)) (history s')"

text \<open>A relation between the state before and after that every run of a program keeps.\<close>

definition stays :: "(state \<Rightarrow> state \<Rightarrow> bool) \<Rightarrow> 'a prog \<Rightarrow> bool" where
  "stays R m \<longleftrightarrow> (\<forall>s r s'. m s = (r, s') \<longrightarrow> R s s')"

text \<open>Each stage, seen from outside: it raises before sending, or it sends one request.\<close>

definition stage_step :: "env \<Rightarrow> state \<Rightarrow> error + string \<Rightarrow> state \<Rightarrow> bool" where
  "stage_step E s r s' \<longleftrightarrow>
     (s' = s \<and> isl r) \<or>
     (\<exists>request. s' = s\<lparr>history := history s @ [request]\<rparr> \<and> \<not> is_first_stage request \<and>
        (request_failed E (history s) request \<longrightarrow> isl r))"

text \<open>A program all of whose runs stop at a failure.\<close>

definition fail_stop :: "env \<Rightarrow> 'a prog \<Rightarrow> bool" where
  "fail_stop E m \<longleftrightarrow> (\<forall>s r s'. m s = (r, s') \<longrightarrow> stops_at_failure E s r s')"

text \<open>
  The pipeline after its first stage, as \<open>run_news_agent\<close> continues with the personnel it
  has extracted.
\<close>

definition after_personnel :: "env \<Rightarrow> string \<Rightarrow> string \<Rightarrow> string prog" where
  "after_personnel E company personnel =
     then_do (save_intermediate_data E company ''personnel'' personnel) (\<lambda>_.
     then_do (get_company_personnel_news E company personnel NUMBER_OF_DAYS TRUSTED_NEWS_SOURCES)
       (\<lambda>personnel_news.
     then_do (save_intermediate_data E company ''personnel_news'' personnel_news) (\<lambda>_.
     then_do (get_company_details E company) (\<lambda>company_details.
     then_do (save_intermediate_data E company ''company_details'' company_details) (\<lambda>_.
     then_do (get_company_news E company company_details NUMBER_OF_DAYS TRUSTED_NEWS_SOURCES)
       (\<lambda>company_news.
     client_chat_completions_create E MODEL_NAME
       (format_prompt company personnel personnel_news company_details company_news)))))))"

text \<open>A step that sends no first-stage request.\<close>

definition no_first_stage :: "state \<Rightarrow> state \<Rightarrow> bool" where
  "no_first_stage s s' \<longleftrightarrow>
     (\<exists>evs. history s' = history s @ evs \<and> first_stage_requests evs = [])"

text \<open>The saves touch the company-data file only.\<close>

definition same_but_store :: "state \<Rightarrow> state \<Rightarrow> bool" where
  "same_but_store s s' \<longleftrightarrow>
     watchlist_file s' = watchlist_file s \<and> stdout s' = stdout s \<and> st_error s' = st_error s"

text \<open>A step adds only allowed keys to the records of the persisted store.\<close>

definition keys_grow :: "env \<Rightarrow> state \<Rightarrow> state \<Rightarrow> bool" where
  "keys_grow E s s' \<longleftrightarrow> (\<forall>x. record_keys E s' x \<subseteq> record_keys E s x \<union> allowed_keys)"

text \<open>A step leaves the final summary that the store holds for a company as it was.\<close>

definition summary_kept :: "env \<Rightarrow> string \<Rightarrow> state \<Rightarrow> state \<Rightarrow> bool" where
  "summary_kept E x s s' \<longleftrightarrow> get_company_data E x s' = get_company_data E x s"

text \<open>
  After the requests \<open>h\<close> the environment cooperates: the service answers every later
  structured call with a parsed output, whose dump by \<open>model_dump_json\<close> parses, and every
  later chat call with a text.
\<close>

definition cooperative :: "env \<Rightarrow> event list \<Rightarrow> bool" where
  "cooperative E h \<longleftrightarrow>
     (\<forall>evs request. \<exists>v w. responses_parse E (h @ evs) request = Inr (Some v) \<and>
        loads E (model_dump_json E v) = Some w) \<and>
     (\<forall>evs request. \<exists>t. chat_create E (h @ evs) request = Inr t)"

text \<open>
  From every state that satisfies \<open>I\<close> the program returns, without raising, a value that
  satisfies \<open>Q\<close>, in a state that satisfies \<open>I\<close> again.
\<close>

definition returns :: "(state \<Rightarrow> bool) \<Rightarrow> 'a prog \<Rightarrow> ('a \<Rightarrow> bool) \<Rightarrow> bool" where
  "returns I m Q \<longleftrightarrow> (\<forall>s. I s \<longrightarrow> (\<exists>x s'. m s = (Inr x, s') \<and> I s' \<and> Q x))"

text \<open>The state in which the pipeline for a company returns when it is started.\<close>

definition ready :: "env \<Rightarrow> string \<Rightarrow> state \<Rightarrow> bool" where
  "ready E company s \<longleftrightarrow>
     cooperative E (history s) \<and> admits_record (load_company_data E s) company"

text \<open>A run of the pipeline sends the first-stage request of its company, and no other.\<close>

definition processes :: "string \<Rightarrow> state \<Rightarrow> state \<Rightarrow> bool" where
  "processes company s s' \<longleftrightarrow>
     (\<exists>evs. history s' = history s @ personnel_request company # evs \<and>
        first_stage_requests evs = [])"

text \<open>
  The store of the data model: a dictionary whose values, the records, are dictionaries.
  A step keeps the store of this shape.
\<close>

fun is_dict :: "json \<Rightarrow> bool" where
  "is_dict (JObj kvs) = True"
| "is_dict _ = False"

definition record_store :: "json \<Rightarrow> bool" where
  "record_store all_data =
     (case all_data of JObj kvs \<Rightarrow> list_all (\<lambda>kv. is_dict (snd kv)) kvs | _ \<Rightarrow> False)"

definition shape_kept :: "env \<Rightarrow> state \<Rightarrow> state \<Rightarrow> bool" where
  "shape_kept E s s' \<longleftrightarrow>
     (record_store (load_company_data E s) \<longrightarrow> record_store (load_company_data E s'))"

text \<open>A step only adds lines to what the scheduler has printed.\<close>

definition log_grows :: "state \<Rightarrow> state \<Rightarrow> bool" where
  "log_grows s s' \<longleftrightarrow> (\<exists>ys. stdout s' = stdout s @ ys)"

section \<open>A reference instance of the environment\<close>

text \<open>
  A small self-delimiting text format for the values above, with an encoder and a decoder
  that satisfy the law \<open>json_roundtrip\<close> asks of the \<open>json\<close> module. It gives the
  concrete environment at which the theorems below are instantiated. A string is written
  with a dot before each character and closed by a semicolon, an integer as its sign and
  its magnitude in unary, a list between brackets and a dictionary between braces. The
  decoder counts down the length of its input.
\<close>

fun enc_str :: "string \<Rightarrow> string" where
  "enc_str [] = '';''"
| "enc_str (c # cs) = CHR ''.'' # c # enc_str cs"

fun dec_str :: "string \<Rightarrow> (string \<times> string) option" where
  "dec_str [] = None"
| "dec_str [d] = (if d = CHR '';'' then Some ([], []) else None)"
| "dec_str (d # c # cs) =
     (if d = CHR '';'' then Some ([], c # cs)
      else if d = CHR ''.'' then map_option (\<lambda>(s, r). (c # s, r)) (dec_str cs)
      else None)"

definition enc_int :: "int \<Rightarrow> string" where
  "enc_int i = (if i < 0 then CHR ''-'' else CHR ''+'') # replicate (nat \<bar>i\<bar>) (CHR ''1'') @ '';''"

fun dec_int :: "string \<Rightarrow> (int \<times> string) option" where
  "dec_int [] = None"
| "dec_int (sg # cs) =
     (case dropWhile (\<lambda>c. c = CHR ''1'') cs of
        [] \<Rightarrow> None
      | d # r \<Rightarrow>
          if d = CHR '';'' \<and> (sg = CHR ''-'' \<or> sg = CHR ''+'')
          then Some ((if sg = CHR ''-'' then - int (length (takeWhile (\<lambda>c. c = CHR ''1'') cs))
                      else int (length (takeWhile (\<lambda>c. c = CHR ''1'') cs))), r)
          else None)"

fun ref_dumps :: "json \<Rightarrow> string" where
  "ref_dumps JNull = ''n''"
| "ref_dumps (JBool b) = (if b then ''t'' else ''f'')"
| "ref_dumps (JInt i) = CHR ''i'' # enc_int i"
| "ref_dumps (JStr s) = CHR ''s'' # enc_str s"
| "ref_dumps (JArr xs) = CHR ''['' # concat (map ref_dumps xs) @ '']''"
| "ref_dumps (JObj kvs) =
     CHR ''{'' # concat (map (\<lambda>kv. enc_str (fst kv) @ ref_dumps (snd kv)) kvs) @ ''}''"

fun dec :: "nat \<Rightarrow> string \<Rightarrow> (json \<times> string) option"
  and dec_arr :: "nat \<Rightarrow> string \<Rightarrow> (json list \<times> string) option"
  and dec_obj :: "nat \<Rightarrow> string \<Rightarrow> ((string \<times> json) list \<times> string) option" where
  "dec 0 cs = None"
| "dec (Suc n) [] = None"
| "dec (Suc n) (c # cs) =
     (if c = CHR ''n'' then Some (JNull, cs)
      else if c = CHR ''t'' then Some (JBool True, cs)
      else if c = CHR ''f'' then Some (JBool False, cs)
      else if c = CHR ''i'' then map_option (\<lambda>(i, r). (JInt i, r)) (dec_int cs)
      else if c = CHR ''s'' then map_option (\<lambda>(s, r). (JStr s, r)) (dec_str cs)
      else if c = CHR ''['' then map_option (\<lambda>(xs, r). (JArr xs, r)) (dec_arr n cs)
      else if c = CHR ''{'' then map_option (\<lambda>(kvs, r). (JObj kvs, r)) (dec_obj n cs)
      else None)"
| "dec_arr 0 cs = None"
| "dec_arr (Suc n) [] = None"
| "dec_arr (Suc n) (c # cs) =
     (if c = CHR '']'' then Some ([], cs)
      else case dec n (c # cs) of
             None \<Rightarrow> None
           | Some (x, r) \<Rightarrow> map_option (\<lambda>(xs, r'). (x # xs, r')) (dec_arr n r))"
| "dec_obj 0 cs = None"
| "dec_obj (Suc n) [] = None"
| "dec_obj (Suc n) (c # cs) =
     (if c = CHR ''}'' then Some ([], cs)
      else case dec_str (c # cs) of
             None \<Rightarrow> None
           | Some (k, r) \<Rightarrow>
               (case dec n r of
                  None \<Rightarrow> None
                | Some (v, r') \<Rightarrow> map_option (\<lambda>(kvs, r''). ((k, v) # kvs, r'')) (dec_obj n r')))"

definition ref_loads :: "string \<Rightarrow> json option" where
  "ref_loads t =
     (case dec (length t) t of
        Some (v, []) \<Rightarrow> if wf_json v then Some v else None
      | _ \<Rightarrow> None)"

text \<open>
  The reference environment: the format above for every serialisation, a remote service
  whose first request fails and whose later requests succeed, and a clock that shows the
  number of requests sent so far as seconds.
\<close>

definition ref_env :: env where
  "ref_env =
     \<lparr>loads = ref_loads, dumps = ref_dumps, dumps_indent = ref_dumps, model_dump_json = ref_dumps,
      responses_parse =
        (\<lambda>h request. if h = [] then Inl (RemoteCallFailure ''timeout'') else Inr (Some (JObj []))),
      chat_create = (\<lambda>h request. Inr ''### Company Details''),
      now_isoformat = (\<lambda>h. ''2025-01-06T09:00:'' @ str_nat (10 + length h))\<rparr>"

section \<open>The reference format satisfies the law of the json module\<close>

lemma dec_enc_str: "dec_str (enc_str s @ r) = Some (s, r)"
  by (induction s) (auto simp: neq_Nil_conv Let_def intro: list.exhaust [of r])

lemma dec_enc_int: "dec_int (enc_int i @ r) = Some (i, r)"
  by (simp add: enc_int_def dropWhile_append3 takeWhile_tail)

lemma ref_dumps_head: "\<exists>c cs. ref_dumps v = c # cs \<and> c \<noteq> CHR '']'' \<and> c \<noteq> CHR ''}''"
  by (cases v) auto

lemma enc_str_head: "\<exists>c cs. enc_str s = c # cs \<and> c \<noteq> CHR ''}''"
  by (cases s) auto

lemma dec_arr_concat:
  assumes "\<And>x n r. x \<in> set xs \<Longrightarrow> length (ref_dumps x) \<le> n \<Longrightarrow> dec n (ref_dumps x @ r) = Some (x, r)"
  shows "length (concat (map ref_dumps xs)) < n \<Longrightarrow>
     dec_arr n (concat (map ref_dumps xs) @ CHR '']'' # r) = Some (xs, r)"
  using assms
proof (induction xs arbitrary: n)
  case Nil
  then show ?case by (cases n) auto
next
  case (Cons x xs)
  obtain c cs where h: "ref_dumps x = c # cs" "c \<noteq> CHR '']''" using ref_dumps_head by blast
  from Cons.prems(1) obtain m where n: "n = Suc m" by (cases n) auto
  have 1: "dec m (ref_dumps x @ concat (map ref_dumps xs) @ CHR '']'' # r) = Some (x, concat (map ref_dumps xs) @ CHR '']'' # r)"
    using Cons.prems(1) n by (intro Cons.prems(2)) auto
  have 2: "dec_arr m (concat (map ref_dumps xs) @ CHR '']'' # r) = Some (xs, r)"
    using Cons.prems n h by (intro Cons.IH) auto
  show ?case using 1 2 h n by simp
qed

lemma dec_obj_concat:
  assumes "\<And>kv n r. kv \<in> set kvs \<Longrightarrow> length (ref_dumps (snd kv)) \<le> n \<Longrightarrow> dec n (ref_dumps (snd kv) @ r) = Some (snd kv, r)"
  shows "length (concat (map (\<lambda>kv. enc_str (fst kv) @ ref_dumps (snd kv)) kvs)) < n \<Longrightarrow>
     dec_obj n (concat (map (\<lambda>kv. enc_str (fst kv) @ ref_dumps (snd kv)) kvs) @ CHR ''}'' # r) = Some (kvs, r)"
  using assms
proof (induction kvs arbitrary: n)
  case Nil
  then show ?case by (cases n) auto
next
  case (Cons kv kvs)
  let ?rest = "concat (map (\<lambda>kv. enc_str (fst kv) @ ref_dumps (snd kv)) kvs) @ CHR ''}'' # r"
  obtain c cs where h: "enc_str (fst kv) = c # cs" "c \<noteq> CHR ''}''" using enc_str_head by blast
  from Cons.prems(1) obtain m where n: "n = Suc m" by (cases n) auto
  have 0: "dec_str (c # cs @ ref_dumps (snd kv) @ ?rest) = Some (fst kv, ref_dumps (snd kv) @ ?rest)"
    using dec_enc_str [of "fst kv" "ref_dumps (snd kv) @ ?rest"] h by simp
  have 1: "dec m (ref_dumps (snd kv) @ ?rest) = Some (snd kv, ?rest)"
    using Cons.prems(1) n by (intro Cons.prems(2)) auto
  have 2: "dec_obj m ?rest = Some (kvs, r)"
    using Cons.prems n h by (intro Cons.IH) auto
  show ?case using 0 1 2 h n by simp
qed

lemma dec_ref_dumps: "length (ref_dumps v) \<le> n \<Longrightarrow> dec n (ref_dumps v @ r) = Some (v, r)"
proof (induction v arbitrary: n r)
  case (JArr xs)
  then obtain m where n: "n = Suc m" by (cases n) auto
  have "dec_arr m (concat (map ref_dumps xs) @ CHR '']'' # r) = Some (xs, r)"
    using JArr n by (intro dec_arr_concat) auto
  then show ?case using n by simp
next
  case (JObj kvs)
  then obtain m where n: "n = Suc m" by (cases n) auto
  have "dec_obj m (concat (map (\<lambda>kv. enc_str (fst kv) @ ref_dumps (snd kv)) kvs) @ CHR ''}'' # r) = Some (kvs, r)"
  proof (intro dec_obj_concat)
    fix kv n r assume kv: "kv \<in> set kvs" and len: "length (ref_dumps (snd kv)) \<le> n"
    have "snd kv \<in> Basic_BNFs.snds kv" by (cases kv) simp
    from JObj.IH [OF kv this len]
    show "dec n (ref_dumps (snd kv) @ r) = Some (snd kv, r)" .
  next
    show "length (concat (map (\<lambda>kv. enc_str (fst kv) @ ref_dumps (snd kv)) kvs)) < m"
      using JObj.prems n by simp
  qed
  then show ?case using n by simp
next
  case (JInt i)
  then obtain m where n: "n = Suc m" by (cases n) auto
  then show ?case by (simp add: dec_enc_int)
next
  case (JStr s)
  then obtain m where n: "n = Suc m" by (cases n) auto
  then show ?case by (simp add: dec_enc_str)
next
  case JNull
  then show ?case by (cases n) auto
next
  case (JBool b)
  then show ?case by (cases n; cases b) auto
qed

lemma ref_loads_dumps: "wf_json v \<Longrightarrow> ref_loads (ref_dumps v) = Some v"
  using dec_ref_dumps [of v "length (ref_dumps v)" "[]"] by (simp add: ref_loads_def)

lemma ref_loads_wf: "ref_loads t = Some v \<Longrightarrow> wf_json v"
  unfolding ref_loads_def by (simp split: option.splits prod.splits list.splits if_splits)

section \<open>Lemmas: programs\<close>

lemma then_do_Inr:
  assumes "then_do m f s = (Inr y, s')"
  obtains x s1 where "m s = (Inr x, s1)" and "f x s1 = (Inr y, s')"
  using assms by (auto simp: then_do_def split: prod.splits sum.splits)

lemma then_do_cases:
  assumes "then_do m f s = (r, s')"
  obtains (raised) e where "m s = (Inl e, s')" and "r = Inl e"
    | (went_on) x s1 where "m s = (Inr x, s1)" and "f x s1 = (r, s')"
  using assms by (auto simp: then_do_def split: prod.splits sum.splits)

lemma try_except_cases:
  assumes "try_except m h s = (r, s')"
  obtains (handled) e s1 where "m s = (Inl e, s1)" and "h e s1 = (r, s')"
    | (passed) x where "m s = (Inr x, s')" and "r = Inr x"
  using assms by (auto simp: try_except_def split: prod.splits sum.splits)

lemma stays_return: "(\<And>s. R s s) \<Longrightarrow> stays R (return x)"
  by (simp add: stays_def return_def)

lemma stays_throw: "(\<And>s. R s s) \<Longrightarrow> stays R (throw e)"
  by (simp add: stays_def throw_def)

lemma stays_then_do:
  assumes "\<And>a b c. R a b \<Longrightarrow> R b c \<Longrightarrow> R a c" and "stays R m" and "\<And>x. stays R (f x)"
  shows "stays R (then_do m f)"
  unfolding stays_def
proof (intro allI impI)
  fix s r s' assume "then_do m f s = (r, s')"
  then show "R s s'"
  proof (cases rule: then_do_cases)
    case (raised e)
    with assms(2) show ?thesis by (auto simp: stays_def)
  next
    case (went_on x s1)
    with assms(2,3) have "R s s1" "R s1 s'" by (auto simp: stays_def)
    with assms(1) show ?thesis by blast
  qed
qed

lemma stays_try_except:
  assumes "\<And>a b c. R a b \<Longrightarrow> R b c \<Longrightarrow> R a c" and "stays R m" and "\<And>e. stays R (h e)"
  shows "stays R (try_except m h)"
  unfolding stays_def
proof (intro allI impI)
  fix s r s' assume "try_except m h s = (r, s')"
  then show "R s s'"
  proof (cases rule: try_except_cases)
    case (handled e s1)
    with assms(2,3) have "R s s1" "R s1 s'" by (auto simp: stays_def)
    with assms(1) show ?thesis by blast
  next
    case (passed x)
    with assms(2) show ?thesis by (auto simp: stays_def)
  qed
qed

lemma staysD: "stays R m \<Longrightarrow> m s = (r, s') \<Longrightarrow> R s s'"
  by (auto simp: stays_def)

section \<open>Lemmas: the store\<close>

lemma set_update_subset: "set (AList.update k v al) \<subseteq> insert (k, v) (set al)"
  by (induction al) auto

lemma wf_json_update:
  "wf_json (JObj kvs) \<Longrightarrow> wf_json v \<Longrightarrow> wf_json (JObj (AList.update k v kvs))"
  using set_update_subset [of k v kvs] by (auto simp: AList.distinct_update)

lemma wf_json_map_of: "wf_json (JObj kvs) \<Longrightarrow> map_of kvs k = Some v \<Longrightarrow> wf_json v"
  by (auto dest: map_of_SomeD)

lemma wf_load_company_data: "json_roundtrip E \<Longrightarrow> wf_json (load_company_data E s)"
  by (auto simp: json_roundtrip_def load_company_data_def split: option.splits)

lemma load_company_data_written:
  "json_roundtrip E \<Longrightarrow> wf_json v \<Longrightarrow>
   load_company_data E (s\<lparr>company_data_file := Some (dumps_indent E v)\<rparr>) = v"
  by (simp add: json_roundtrip_def load_company_data_def)

lemma in_keys_map_of: "(k \<in> fst ` set kvs) = (map_of kvs k \<noteq> None)"
  by (simp add: map_of_eq_None_iff)

text \<open>What a save that returns has written, and that a save that raises writes nothing.\<close>

lemma store_field_Inr:
  assumes "ebind (py_getitem all1 c) (\<lambda>record.
           ebind (py_setitem record k v) (\<lambda>record'. py_setitem all1 c record')) = Inr res"
  obtains kvs fs where "all1 = JObj kvs" and "map_of kvs c = Some (JObj fs)"
    and "res = JObj (AList.update c (JObj (AList.update k v fs)) kvs)"
proof (cases all1)
  case (JObj kvs)
  with assms obtain rec where r: "map_of kvs c = Some rec"
    by (cases "map_of kvs c") (auto simp: ebind_def)
  with assms JObj obtain fs where "rec = JObj fs"
    by (cases rec) (auto simp: ebind_def)
  with assms JObj r show ?thesis by (intro that [of kvs fs]) (auto simp: ebind_def)
qed (use assms in \<open>auto simp: ebind_def\<close>)

lemma save_intermediate_data_Inr:
  assumes "save_intermediate_data E c k data s = (Inr u, s')"
  obtains kvs fs v where "load_company_data E s = JObj kvs" and "loads E data = Some v"
    and "map_of kvs c = None \<and> fs = [] \<or> map_of kvs c = Some (JObj fs)"
    and "s' = s\<lparr>company_data_file :=
            Some (dumps_indent E (JObj (AList.update c (JObj (AList.update k v fs)) kvs)))\<rparr>"
proof -
  define all_data where "all_data = load_company_data E s"
  from assms obtain present all1 v res where
    p: "py_contains c all_data = Inr present"
    and a1: "(if present then Inr all_data else py_setitem all_data c (JObj [])) = Inr all1"
    and v: "loads E data = Some v"
    and res: "ebind (py_getitem all1 c) (\<lambda>record.
           ebind (py_setitem record k v) (\<lambda>record'. py_setitem all1 c record')) = Inr res"
    and s': "s' = s\<lparr>company_data_file := Some (dumps_indent E res)\<rparr>"
    unfolding save_intermediate_data_def Let_def all_data_def [symmetric]
    by (auto simp: ebind_def split: sum.splits option.splits)
  from res obtain kvs1 fs where all1: "all1 = JObj kvs1" and fs: "map_of kvs1 c = Some (JObj fs)"
    and r: "res = JObj (AList.update c (JObj (AList.update k v fs)) kvs1)"
    by (rule store_field_Inr)
  show ?thesis
  proof (cases present)
    case True
    with a1 all1 have "all_data = JObj kvs1" by simp
    with fs r s' v show ?thesis by (intro that [of kvs1 v fs]) (auto simp: all_data_def)
  next
    case False
    with a1 all1 obtain kvs where kvs: "all_data = JObj kvs" and k1: "kvs1 = AList.update c (JObj []) kvs"
      by (cases all_data) auto
    from p False kvs have "map_of kvs c = None" by (simp add: in_keys_map_of)
    moreover from fs k1 have "fs = []" by (simp add: AList.update_conv')
    ultimately show ?thesis using kvs r s' v k1
      by (intro that [of kvs v fs]) (auto simp: all_data_def)
  qed
qed

lemma save_intermediate_data_Inl:
  "save_intermediate_data E c k data s = (Inl e, s') \<Longrightarrow> s' = s"
  by (auto simp: save_intermediate_data_def Let_def split: sum.splits)

lemma save_company_data_Inr:
  assumes "save_company_data E c d s = (Inr u, s')"
  obtains kvs fs where "load_company_data E s = JObj kvs" and "map_of kvs c = Some (JObj fs)"
    and "s' = s\<lparr>company_data_file :=
            Some (dumps_indent E (JObj (AList.update c (JObj (AList.update ''final_summary'' d fs)) kvs)))\<rparr>"
proof -
  from assms obtain res where
    res: "ebind (py_getitem (load_company_data E s) c) (\<lambda>record.
           ebind (py_setitem record ''final_summary'' d) (\<lambda>record'.
           py_setitem (load_company_data E s) c record')) = Inr res"
    and s': "s' = s\<lparr>company_data_file := Some (dumps_indent E res)\<rparr>"
    unfolding save_company_data_def Let_def by (auto split: sum.splits)
  from res obtain kvs fs where "load_company_data E s = JObj kvs" "map_of kvs c = Some (JObj fs)"
    "res = JObj (AList.update c (JObj (AList.update ''final_summary'' d fs)) kvs)"
    by (rule store_field_Inr)
  with s' show ?thesis by (intro that [of kvs fs]) auto
qed

lemma save_company_data_Inl:
  "save_company_data E c d s = (Inl e, s') \<Longrightarrow> s' = s"
  by (auto simp: save_company_data_def Let_def split: sum.splits)

lemma has_recordE:
  assumes "has_record all_data c"
  obtains kvs fs where "all_data = JObj kvs" and "map_of kvs c = Some (JObj fs)"
proof (cases all_data)
  case (JObj kvs)
  with assms obtain rec where r: "map_of kvs c = Some rec"
    by (cases "map_of kvs c") (auto simp: has_record_def)
  with assms JObj obtain fs where "rec = JObj fs"
    by (cases rec) (auto simp: has_record_def)
  with JObj r show ?thesis by (intro that [of kvs fs]) auto
qed (use assms in \<open>auto simp: has_record_def\<close>)

lemma has_recordI: "all_data = JObj kvs \<Longrightarrow> map_of kvs c = Some (JObj fs) \<Longrightarrow> has_record all_data c"
  by (simp add: has_record_def)

lemma save_company_data_has_record:
  assumes "has_record (load_company_data E s) c"
  obtains kvs fs where "load_company_data E s = JObj kvs" and "map_of kvs c = Some (JObj fs)"
    and "save_company_data E c d s = (Inr (), s\<lparr>company_data_file :=
            Some (dumps_indent E (JObj (AList.update c (JObj (AList.update ''final_summary'' d fs)) kvs)))\<rparr>)"
proof -
  from assms obtain kvs fs where "load_company_data E s = JObj kvs" "map_of kvs c = Some (JObj fs)"
    by (rule has_recordE)
  then show ?thesis
    by (intro that [of kvs fs]) (auto simp: save_company_data_def ebind_def)
qed

section \<open>Lemmas: the extraction stages\<close>

text \<open>A structured extraction sends one request and changes nothing else.\<close>

lemma extraction_step:
  assumes "then_do (client_responses_parse E model input text_format) (dump_parsed E) s = (r, s')"
  shows "s' = s\<lparr>history := history s @ [ResponsesParse model input text_format]\<rparr> \<and>
         r = (case responses_parse E (history s) (ResponsesParse model input text_format) of
                Inl e \<Rightarrow> Inl e
              | Inr None \<Rightarrow> Inl AttributeError
              | Inr (Some v) \<Rightarrow> Inr (model_dump_json E v))"
  using assms
  by (auto simp: then_do_def client_responses_parse_def dump_parsed_def Let_def throw_def return_def
      split: sum.splits option.splits)

lemma extraction_failed:
  assumes "then_do (client_responses_parse E model input text_format) (dump_parsed E) s = (r, s')"
    and "request_failed E (history s) (ResponsesParse model input text_format)"
  shows "isl r"
  using extraction_step [OF assms(1)] assms(2)
  by (auto simp: request_failed_def split: sum.splits option.splits)

lemma get_company_personnel_step:
  assumes "get_company_personnel E c s = (r, s')"
  shows "s' = s\<lparr>history := history s @ [personnel_request c]\<rparr>"
    and "request_failed E (history s) (personnel_request c) \<Longrightarrow> isl r"
  using assms extraction_step extraction_failed
  unfolding get_company_personnel_def personnel_request_def by blast+

lemma get_company_personnel_news_step:
  assumes "get_company_personnel_news E c p d src s = (r, s')"
  shows "stage_step E s r s'"
proof (cases "format_prompt_company_personnel_news_prompt c p d src")
  case (Inl e)
  with assms have "r = Inl e" and "s' = s"
    by (simp_all add: get_company_personnel_news_def throw_def)
  then show ?thesis by (simp add: stage_step_def)
next
  case (Inr input)
  with assms show ?thesis
    unfolding get_company_personnel_news_def stage_step_def
    by (auto dest: extraction_step extraction_failed)
qed

lemma get_company_details_step:
  "get_company_details E c s = (r, s') \<Longrightarrow> stage_step E s r s'"
  unfolding get_company_details_def stage_step_def
  by (auto dest: extraction_step extraction_failed)

lemma get_company_news_step:
  assumes "get_company_news E c p d src s = (r, s')"
  shows "stage_step E s r s'"
proof (cases "format_prompt_company_news_prompt c p d src")
  case (Inl e)
  with assms have "r = Inl e" and "s' = s"
    by (simp_all add: get_company_news_def throw_def)
  then show ?thesis by (simp add: stage_step_def)
next
  case (Inr input)
  with assms show ?thesis
    unfolding get_company_news_def stage_step_def
    by (auto dest: extraction_step extraction_failed)
qed

lemma chat_step:
  assumes "client_chat_completions_create E model content s = (r, s')"
  shows "stage_step E s r s'"
  using assms unfolding stage_step_def client_chat_completions_create_def Let_def
  by (auto simp: request_failed_def split: sum.splits)

section \<open>Lemmas: what the saves leave in the store\<close>

lemma wf_json_loads: "json_roundtrip E \<Longrightarrow> loads E t = Some v \<Longrightarrow> wf_json v"
  by (auto simp: json_roundtrip_def)

lemma wf_record_update:
  assumes "wf_json (JObj kvs)" and "wf_json v"
    and "map_of kvs c = None \<and> fs = [] \<or> map_of kvs c = Some (JObj fs)"
  shows "wf_json (JObj (AList.update c (JObj (AList.update k v fs)) kvs))"
proof -
  from assms(3) have "wf_json (JObj fs)"
  proof
    assume "map_of kvs c = None \<and> fs = []"
    then show ?thesis by simp
  next
    assume "map_of kvs c = Some (JObj fs)"
    with assms(1) show ?thesis by (rule wf_json_map_of)
  qed
  from this assms(2) have "wf_json (JObj (AList.update k v fs))" by (rule wf_json_update)
  with assms(1) show ?thesis by (rule wf_json_update)
qed

lemma save_intermediate_data_load:
  assumes "json_roundtrip E" and "save_intermediate_data E c k data s = (Inr u, s')"
  obtains kvs fs v where "load_company_data E s = JObj kvs"
    and "map_of kvs c = None \<and> fs = [] \<or> map_of kvs c = Some (JObj fs)"
    and "loads E data = Some v"
    and "load_company_data E s' = JObj (AList.update c (JObj (AList.update k v fs)) kvs)"
    and "s' = s\<lparr>company_data_file := company_data_file s'\<rparr>"
proof -
  from assms(2) obtain kvs fs v where kvs: "load_company_data E s = JObj kvs"
    and v: "loads E data = Some v"
    and fs: "map_of kvs c = None \<and> fs = [] \<or> map_of kvs c = Some (JObj fs)"
    and s': "s' = s\<lparr>company_data_file :=
            Some (dumps_indent E (JObj (AList.update c (JObj (AList.update k v fs)) kvs)))\<rparr>"
    by (rule save_intermediate_data_Inr)
  have "wf_json (JObj kvs)" using wf_load_company_data [OF assms(1), of s] kvs by simp
  moreover have "wf_json v" using assms(1) v by (rule wf_json_loads)
  ultimately have "wf_json (JObj (AList.update c (JObj (AList.update k v fs)) kvs))"
    using fs by (rule wf_record_update)
  with assms(1) s'
  have "load_company_data E s' = JObj (AList.update c (JObj (AList.update k v fs)) kvs)"
    by (simp add: load_company_data_written)
  with kvs fs v s' show ?thesis by (intro that [of kvs fs v]) auto
qed

lemma save_company_data_load:
  assumes "json_roundtrip E" and "wf_json d" and "save_company_data E c d s = (Inr u, s')"
  obtains kvs fs where "load_company_data E s = JObj kvs" and "map_of kvs c = Some (JObj fs)"
    and "load_company_data E s' =
           JObj (AList.update c (JObj (AList.update ''final_summary'' d fs)) kvs)"
    and "s' = s\<lparr>company_data_file := company_data_file s'\<rparr>"
proof -
  from assms(3) obtain kvs fs where kvs: "load_company_data E s = JObj kvs"
    and fs: "map_of kvs c = Some (JObj fs)"
    and s': "s' = s\<lparr>company_data_file :=
            Some (dumps_indent E (JObj (AList.update c (JObj (AList.update ''final_summary'' d fs)) kvs)))\<rparr>"
    by (rule save_company_data_Inr)
  have "wf_json (JObj kvs)" using wf_load_company_data [OF assms(1), of s] kvs by simp
  then have "wf_json (JObj (AList.update c (JObj (AList.update ''final_summary'' d fs)) kvs))"
    using assms(2) fs by (intro wf_record_update) auto
  with assms(1) s'
  have "load_company_data E s' =
          JObj (AList.update c (JObj (AList.update ''final_summary'' d fs)) kvs)"
    by (simp add: load_company_data_written)
  with kvs fs s' show ?thesis by (intro that [of kvs fs]) auto
qed

lemma wf_final_summary: "wf_json (final_summary E summary s)"
  by (simp add: final_summary_def)

section \<open>Lemmas: relations that every step of the pipeline keeps\<close>

lemma stage_step_keeps:
  assumes "\<And>s. R s s" and "\<And>s h. R s (s\<lparr>history := h\<rparr>)" and "stage_step E s r s'"
  shows "R s s'"
proof -
  from assms(3) consider "s' = s" | request where "s' = s\<lparr>history := history s @ [request]\<rparr>"
    unfolding stage_step_def by blast
  then show ?thesis
  proof cases
    case 1
    then show ?thesis by (simp add: assms(1))
  next
    case 2
    then show ?thesis by (simp add: assms(2))
  qed
qed

lemma stays_stage:
  assumes "\<And>s. R s s" and "\<And>s h. R s (s\<lparr>history := h\<rparr>)"
    and "\<And>s r s'. m s = (r, s') \<Longrightarrow> stage_step E s r s'"
  shows "stays R m"
  unfolding stays_def
proof (intro allI impI)
  fix s r s' assume "m s = (r, s')"
  then have "stage_step E s r s'" by (rule assms(3))
  with assms(1,2) show "R s s'" by (rule stage_step_keeps [of R])
qed

lemma stays_run_news_agent:
  assumes refl: "\<And>s. R s s" and trans: "\<And>a b c. R a b \<Longrightarrow> R b c \<Longrightarrow> R a c"
    and hist: "\<And>s h. R s (s\<lparr>history := h\<rparr>)"
    and save: "\<And>k d. k \<in> {''personnel'', ''personnel_news'', ''company_details''} \<Longrightarrow>
             stays R (save_intermediate_data E c k d)"
  shows "stays R (run_news_agent E c)"
proof -
  note td = stays_then_do [of R, OF trans]
  have 1: "stays R (get_company_personnel E c)"
    unfolding stays_def
  proof (intro allI impI)
    fix s r s' assume "get_company_personnel E c s = (r, s')"
    then have "s' = s\<lparr>history := history s @ [personnel_request c]\<rparr>"
      by (rule get_company_personnel_step(1))
    then show "R s s'" by (simp add: hist)
  qed
  have 2: "stays R (get_company_personnel_news E c p d src)" for p d src
    using refl hist get_company_personnel_news_step by (rule stays_stage [of R])
  have 3: "stays R (get_company_details E c)"
    using refl hist get_company_details_step by (rule stays_stage [of R])
  have 4: "stays R (get_company_news E c p d src)" for p d src
    using refl hist get_company_news_step by (rule stays_stage [of R])
  have 5: "stays R (client_chat_completions_create E m t)" for m t
    using refl hist chat_step by (rule stays_stage [of R])
  have 6: "stays R (save_intermediate_data E c ''personnel'' d)"
    "stays R (save_intermediate_data E c ''personnel_news'' d)"
    "stays R (save_intermediate_data E c ''company_details'' d)" for d
    by (rule save, simp)+
  show ?thesis
    unfolding run_news_agent_def
    by (intro td 1 2 3 4 5 6)
qed

lemma stays_summarise_and_save:
  assumes trans: "\<And>a b c. R a b \<Longrightarrow> R b c \<Longrightarrow> R a c"
    and cb: "stays R (callback c)"
    and save: "\<And>summary s0. stays R (save_company_data E c (final_summary E summary s0))"
  shows "stays R (summarise_and_save callback E c)"
  unfolding summarise_and_save_def
proof (rule stays_then_do [of R, OF trans cb])
  fix summary
  show "stays R (\<lambda>s. save_company_data E c (final_summary E summary s) s)"
    unfolding stays_def
  proof (intro allI impI)
    fix s r s' assume "save_company_data E c (final_summary E summary s) s = (r, s')"
    with save [of summary s] show "R s s'" by (rule staysD)
  qed
qed

lemma stays_fetch_summary:
  assumes refl: "\<And>s. R s s" and trans: "\<And>a b c. R a b \<Longrightarrow> R b c \<Longrightarrow> R a c"
    and hist: "\<And>s h. R s (s\<lparr>history := h\<rparr>)"
    and page: "\<And>s x. R s (s\<lparr>st_error := x\<rparr>)"
    and save: "\<And>k d. k \<in> {''personnel'', ''personnel_news'', ''company_details''} \<Longrightarrow>
             stays R (save_intermediate_data E c k d)"
    and final: "\<And>summary s0. stays R (save_company_data E c (final_summary E summary s0))"
  shows "stays R (fetch_summary E c)"
  unfolding fetch_summary_def
proof (rule stays_try_except [of R, OF trans])
  have "stays R (run_news_agent E c)"
    using refl trans hist save by (rule stays_run_news_agent [of R])
  with trans show "stays R (summarise_and_save (run_news_agent E) E c)"
    using final by (rule stays_summarise_and_save [of R])
  show "stays R (show_st_error e)" for e
    using page by (auto simp: stays_def show_st_error_def)
qed

lemma stays_refresh_all:
  assumes refl: "\<And>s. R s s" and trans: "\<And>a b c. R a b \<Longrightarrow> R b c \<Longrightarrow> R a c"
    and out: "\<And>s x. R s (s\<lparr>stdout := x\<rparr>)"
    and cb: "\<And>c. stays R (callback c)"
    and final: "\<And>c summary s0. stays R (save_company_data E c (final_summary E summary s0))"
  shows "stays R (refresh_all callback E wl)"
proof (induction wl)
  case Nil
  show ?case using refl by (simp add: stays_return)
next
  case (Cons c wl)
  have "stays R (try_except (summarise_and_save callback E c) (print_scheduler_error c))"
  proof (rule stays_try_except [of R, OF trans])
    show "stays R (summarise_and_save callback E c)"
      using trans cb final by (rule stays_summarise_and_save [of R])
    show "stays R (print_scheduler_error c e)" for e
      using out by (auto simp: stays_def print_scheduler_error_def)
  qed
  with trans have "stays R (then_do
      (try_except (summarise_and_save callback E c) (print_scheduler_error c))
      (\<lambda>_. refresh_all callback E wl))"
    using Cons.IH by (rule stays_then_do [of R])
  then show ?case by simp
qed

lemma run_news_agent_split:
  "run_news_agent E c = then_do (get_company_personnel E c) (after_personnel E c)"
  unfolding run_news_agent_def after_personnel_def [abs_def] ..

lemma stays_after_personnel:
  assumes refl: "\<And>s. R s s" and trans: "\<And>a b c. R a b \<Longrightarrow> R b c \<Longrightarrow> R a c"
    and stage: "\<And>s r s'. stage_step E s r s' \<Longrightarrow> R s s'"
    and save: "\<And>k d. k \<in> {''personnel'', ''personnel_news'', ''company_details''} \<Longrightarrow>
             stays R (save_intermediate_data E c k d)"
  shows "stays R (after_personnel E c p)"
proof -
  note td = stays_then_do [of R, OF trans]
  have 2: "stays R (get_company_personnel_news E c p d src)" for p d src
    using get_company_personnel_news_step stage by (fastforce simp: stays_def)
  have 3: "stays R (get_company_details E c)"
    using get_company_details_step stage by (fastforce simp: stays_def)
  have 4: "stays R (get_company_news E c p d src)" for p d src
    using get_company_news_step stage by (fastforce simp: stays_def)
  have 5: "stays R (client_chat_completions_create E m t)" for m t
    using chat_step stage by (fastforce simp: stays_def)
  have 6: "stays R (save_intermediate_data E c ''personnel'' d)"
    "stays R (save_intermediate_data E c ''personnel_news'' d)"
    "stays R (save_intermediate_data E c ''company_details'' d)" for d
    by (rule save, simp)+
  show ?thesis
    unfolding after_personnel_def
    by (intro td 2 3 4 5 6)
qed

section \<open>Lemmas: stopping at a failure\<close>

lemma fail_stopD: "fail_stop E m \<Longrightarrow> m s = (r, s') \<Longrightarrow> stops_at_failure E s r s'"
  by (simp add: fail_stop_def)

lemma stops_no_request: "history s' = history s \<Longrightarrow> stops_at_failure E s r s'"
  by (simp add: stops_at_failure_def)

lemma stops_one_request:
  assumes "s' = s\<lparr>history := history s @ [request]\<rparr>"
    and "request_failed E (history s) request \<Longrightarrow> isl r"
  shows "stops_at_failure E s r s'"
  unfolding stops_at_failure_def
proof (intro exI [of _ "[request]"] conjI allI impI)
  show "history s' = history s @ [request]" using assms(1) by simp
next
  fix pre ev post
  assume "[request] = pre @ ev # post" and f: "request_failed E (history s @ pre) ev"
  then have "pre = []" "ev = request" "post = []" by (auto simp: Cons_eq_append_conv)
  with f assms(2) show "post = []" "isl r" by auto
qed

lemma stage_step_stops:
  assumes "stage_step E s r s'"
  shows "stops_at_failure E s r s'"
proof -
  from assms consider "s' = s"
    | request where "s' = s\<lparr>history := history s @ [request]\<rparr>"
        and "request_failed E (history s) request \<longrightarrow> isl r"
    unfolding stage_step_def by blast
  then show ?thesis
  proof cases
    case 1
    then show ?thesis by (simp add: stops_no_request)
  next
    case 2
    then show ?thesis by (intro stops_one_request [of s' s request]) auto
  qed
qed

lemma stops_then:
  assumes m: "stops_at_failure E s (Inr x) s1" and f: "stops_at_failure E s1 r s'"
  shows "stops_at_failure E s r s'"
proof -
  from m obtain evs1 where h1: "history s1 = history s @ evs1"
    and ok1: "\<And>pre ev post. evs1 = pre @ ev # post \<Longrightarrow> \<not> request_failed E (history s @ pre) ev"
    unfolding stops_at_failure_def by auto
  from f obtain evs2 where h2: "history s' = history s1 @ evs2"
    and ok2: "\<And>pre ev post. evs2 = pre @ ev # post \<Longrightarrow>
                request_failed E (history s1 @ pre) ev \<Longrightarrow> post = [] \<and> isl r"
    unfolding stops_at_failure_def by auto
  show ?thesis
    unfolding stops_at_failure_def
  proof (intro exI [of _ "evs1 @ evs2"] conjI allI impI)
    show "history s' = history s @ evs1 @ evs2" using h1 h2 by simp
  next
    fix pre ev post
    assume split: "evs1 @ evs2 = pre @ ev # post"
      and failed: "request_failed E (history s @ pre) ev"
    from split consider us where "evs1 = pre @ ev # us"
      | us where "pre = evs1 @ us" and "evs2 = us @ ev # post"
      by (auto simp: append_eq_append_conv2 append_eq_Cons_conv Cons_eq_append_conv)
    then have "post = [] \<and> isl r"
    proof cases
      case 1
      with ok1 failed show ?thesis by blast
    next
      case 2
      with failed h1 have "request_failed E (history s1 @ us) ev" by simp
      with 2 ok2 show ?thesis by blast
    qed
    then show "post = []" "isl r" by auto
  qed
qed

lemma stops_raised:
  "stops_at_failure E s (Inl e :: error + 'a) s' \<Longrightarrow> stops_at_failure E s (Inl e :: error + 'b) s'"
  by (simp add: stops_at_failure_def)

lemma fail_stop_then_do:
  assumes "fail_stop E m" and "\<And>x. fail_stop E (f x)"
  shows "fail_stop E (then_do m f)"
  unfolding fail_stop_def
proof (intro allI impI)
  fix s r s' assume "then_do m f s = (r, s')"
  then show "stops_at_failure E s r s'"
  proof (cases rule: then_do_cases)
    case (raised e)
    with assms(1) have "stops_at_failure E s (Inl e :: error + 'a) s'" by (auto dest: fail_stopD)
    with raised show ?thesis by (auto intro: stops_raised)
  next
    case (went_on x s1)
    with assms have "stops_at_failure E s (Inr x) s1" "stops_at_failure E s1 r s'"
      by (auto dest: fail_stopD)
    then show ?thesis by (rule stops_then)
  qed
qed

lemma save_intermediate_data_history:
  "save_intermediate_data E c k d s = (r, s') \<Longrightarrow> history s' = history s"
  by (cases r) (auto dest: save_intermediate_data_Inl elim: save_intermediate_data_Inr)

lemma fail_stop_run_news_agent: "fail_stop E (run_news_agent E c)"
proof -
  have 1: "fail_stop E (get_company_personnel E c)"
    unfolding fail_stop_def
    by (intro allI impI stops_one_request [where request = "personnel_request c"])
       (auto dest: get_company_personnel_step)
  have 2: "fail_stop E (get_company_personnel_news E c p d src)" for p d src
    by (auto simp: fail_stop_def dest: get_company_personnel_news_step stage_step_stops)
  have 3: "fail_stop E (get_company_details E c)"
    by (auto simp: fail_stop_def dest: get_company_details_step stage_step_stops)
  have 4: "fail_stop E (get_company_news E c p d src)" for p d src
    by (auto simp: fail_stop_def dest: get_company_news_step stage_step_stops)
  have 5: "fail_stop E (client_chat_completions_create E m t)" for m t
    by (auto simp: fail_stop_def dest: chat_step stage_step_stops)
  have 6: "fail_stop E (save_intermediate_data E c k d)" for k d
    by (auto simp: fail_stop_def dest: save_intermediate_data_history stops_no_request)
  show ?thesis
    unfolding run_news_agent_def
    by (intro fail_stop_then_do 1 2 3 4 5 6)
qed

section \<open>Lemmas: what the saves change\<close>

lemma record_keys_same_file:
  "company_data_file s' = company_data_file s \<Longrightarrow> record_keys E s' = record_keys E s"
  by (simp add: record_keys_def load_company_data_def fun_eq_iff)

lemma get_company_data_same_file:
  "company_data_file s' = company_data_file s \<Longrightarrow> get_company_data E x s' = get_company_data E x s"
  by (simp add: get_company_data_def load_company_data_def)

lemma record_keys_after_update:
  assumes "load_company_data E s = JObj kvs"
    and "map_of kvs c = None \<and> fs = [] \<or> map_of kvs c = Some (JObj fs)"
    and "load_company_data E s' = JObj (AList.update c (JObj (AList.update k v fs)) kvs)"
  shows "record_keys E s' x = (if x = c then insert k (record_keys E s x) else record_keys E s x)"
proof (cases "x = c")
  case True
  have "record_keys E s' c = fst ` set (AList.update k v fs)"
    using assms(3) by (simp add: record_keys_def AList.update_conv')
  also have "\<dots> = insert k (fst ` set fs)" by (simp add: AList.dom_update)
  also from assms(1,2) have "fst ` set fs = record_keys E s c"
    by (elim disjE conjE) (simp_all add: record_keys_def)
  finally show ?thesis using True by simp
next
  case False
  with assms(1,3) show ?thesis by (simp add: record_keys_def AList.update_conv')
qed

lemma get_company_data_after_update:
  assumes "load_company_data E s = JObj kvs"
    and "map_of kvs c = None \<and> fs = [] \<or> map_of kvs c = Some (JObj fs)"
    and "load_company_data E s' = JObj (AList.update c (JObj (AList.update k v fs)) kvs)"
  shows "get_company_data E x s' =
           (if x = c \<and> k = ''final_summary'' then Inr v else get_company_data E x s)"
  using assms by (auto simp: get_company_data_def ebind_def AList.update_conv')

lemma save_intermediate_data_keys:
  assumes "json_roundtrip E" and "k \<in> allowed_keys"
  shows "stays (\<lambda>s s'. \<forall>x. record_keys E s' x \<subseteq> record_keys E s x \<union> allowed_keys)
           (save_intermediate_data E c k d)"
  unfolding stays_def
proof (intro allI impI)
  fix s r s' x assume run: "save_intermediate_data E c k d s = (r, s')"
  show "record_keys E s' x \<subseteq> record_keys E s x \<union> allowed_keys"
  proof (cases r)
    case (Inl e)
    with run have "s' = s" by (auto dest: save_intermediate_data_Inl)
    then show ?thesis by simp
  next
    case (Inr u)
    with run assms(1) obtain kvs fs v where "load_company_data E s = JObj kvs"
      "map_of kvs c = None \<and> fs = [] \<or> map_of kvs c = Some (JObj fs)"
      "load_company_data E s' = JObj (AList.update c (JObj (AList.update k v fs)) kvs)"
      by (auto elim: save_intermediate_data_load)
    then have "record_keys E s' x = (if x = c then insert k (record_keys E s x) else record_keys E s x)"
      by (rule record_keys_after_update)
    with assms(2) show ?thesis by auto
  qed
qed

lemma save_company_data_keys:
  assumes "json_roundtrip E" and "wf_json d"
  shows "stays (\<lambda>s s'. \<forall>x. record_keys E s' x \<subseteq> record_keys E s x \<union> allowed_keys)
           (save_company_data E c d)"
  unfolding stays_def
proof (intro allI impI)
  fix s r s' x assume run: "save_company_data E c d s = (r, s')"
  show "record_keys E s' x \<subseteq> record_keys E s x \<union> allowed_keys"
  proof (cases r)
    case (Inl e)
    with run have "s' = s" by (auto dest: save_company_data_Inl)
    then show ?thesis by simp
  next
    case (Inr u)
    with run assms obtain kvs fs where "load_company_data E s = JObj kvs"
      "map_of kvs c = Some (JObj fs)"
      "load_company_data E s' = JObj (AList.update c (JObj (AList.update ''final_summary'' d fs)) kvs)"
      by (auto elim: save_company_data_load)
    then have "record_keys E s' x =
        (if x = c then insert ''final_summary'' (record_keys E s x) else record_keys E s x)"
      by (intro record_keys_after_update) auto
    then show ?thesis by (auto simp: allowed_keys_def)
  qed
qed

lemma save_intermediate_data_summary:
  assumes "json_roundtrip E" and "k \<noteq> ''final_summary''"
  shows "stays (\<lambda>s s'. get_company_data E x s' = get_company_data E x s)
           (save_intermediate_data E c k d)"
  unfolding stays_def
proof (intro allI impI)
  fix s r s' assume run: "save_intermediate_data E c k d s = (r, s')"
  show "get_company_data E x s' = get_company_data E x s"
  proof (cases r)
    case (Inl e)
    with run have "s' = s" by (auto dest: save_intermediate_data_Inl)
    then show ?thesis by simp
  next
    case (Inr u)
    with run assms(1) obtain kvs fs v where "load_company_data E s = JObj kvs"
      "map_of kvs c = None \<and> fs = [] \<or> map_of kvs c = Some (JObj fs)"
      "load_company_data E s' = JObj (AList.update c (JObj (AList.update k v fs)) kvs)"
      by (auto elim: save_intermediate_data_load)
    then have "get_company_data E x s' =
        (if x = c \<and> k = ''final_summary'' then Inr v else get_company_data E x s)"
      by (rule get_company_data_after_update)
    with assms(2) show ?thesis by simp
  qed
qed

lemma save_intermediate_data_frame:
  "stays same_but_store (save_intermediate_data E c k d)"
  unfolding stays_def same_but_store_def
proof (intro allI impI)
  fix s r s' assume run: "save_intermediate_data E c k d s = (r, s')"
  then have "s' = s\<lparr>company_data_file := company_data_file s'\<rparr>"
    by (cases r) (auto dest: save_intermediate_data_Inl elim: save_intermediate_data_Inr)
  then have "watchlist_file s' = watchlist_file (s\<lparr>company_data_file := company_data_file s'\<rparr>)"
    "stdout s' = stdout (s\<lparr>company_data_file := company_data_file s'\<rparr>)"
    "st_error s' = st_error (s\<lparr>company_data_file := company_data_file s'\<rparr>)" by simp_all
  then show "watchlist_file s' = watchlist_file s \<and> stdout s' = stdout s \<and> st_error s' = st_error s"
    by simp
qed

lemma stage_keys_allowed:
  "k \<in> {''personnel'', ''personnel_news'', ''company_details''} \<Longrightarrow> k \<in> allowed_keys"
  "k \<in> {''personnel'', ''personnel_news'', ''company_details''} \<Longrightarrow> k \<noteq> ''final_summary''"
  by (auto simp: allowed_keys_def)

lemma same_but_store_refl: "same_but_store s s"
  by (simp add: same_but_store_def)

lemma same_but_store_trans: "same_but_store a b \<Longrightarrow> same_but_store b c \<Longrightarrow> same_but_store a c"
  by (simp add: same_but_store_def)

lemma same_but_store_history: "same_but_store s (s\<lparr>history := h\<rparr>)"
  by (simp add: same_but_store_def)

lemma run_news_agent_frame: "stays same_but_store (run_news_agent E c)"
proof (rule stays_run_news_agent [where R = same_but_store])
  show "same_but_store s s" for s by (rule same_but_store_refl)
  show "same_but_store a b \<Longrightarrow> same_but_store b c \<Longrightarrow> same_but_store a c" for a b c
    by (rule same_but_store_trans)
  show "same_but_store s (s\<lparr>history := h\<rparr>)" for s h by (rule same_but_store_history)
  show "stays same_but_store (save_intermediate_data E c k d)" for k d
    by (rule save_intermediate_data_frame)
qed

lemma keys_grow_refl: "keys_grow E s s"
  by (simp add: keys_grow_def)

lemma keys_grow_trans:
  assumes "keys_grow E a b" and "keys_grow E b c"
  shows "keys_grow E a c"
  unfolding keys_grow_def
proof
  fix x
  from assms have "record_keys E b x \<subseteq> record_keys E a x \<union> allowed_keys"
    and "record_keys E c x \<subseteq> record_keys E b x \<union> allowed_keys"
    by (simp_all add: keys_grow_def)
  then show "record_keys E c x \<subseteq> record_keys E a x \<union> allowed_keys" by blast
qed

lemma keys_grow_same_file: "company_data_file s' = company_data_file s \<Longrightarrow> keys_grow E s s'"
  using record_keys_same_file [of s' s E] by (simp add: keys_grow_def)

lemma save_intermediate_data_keys_grow:
  assumes "json_roundtrip E" and "k \<in> {''personnel'', ''personnel_news'', ''company_details''}"
  shows "stays (keys_grow E) (save_intermediate_data E c k d)"
  using save_intermediate_data_keys [OF assms(1) stage_keys_allowed(1) [OF assms(2)]]
  unfolding keys_grow_def [abs_def] .

lemma save_company_data_keys_grow:
  assumes "json_roundtrip E"
  shows "stays (keys_grow E) (save_company_data E c (final_summary E summary s0))"
  using save_company_data_keys [OF assms wf_final_summary]
  unfolding keys_grow_def [abs_def] .

lemma run_news_agent_keys_grow:
  assumes "json_roundtrip E"
  shows "stays (keys_grow E) (run_news_agent E c)"
proof (rule stays_run_news_agent [where R = "keys_grow E"])
  show "keys_grow E s s" for s by (rule keys_grow_refl)
  show "keys_grow E a b \<Longrightarrow> keys_grow E b c \<Longrightarrow> keys_grow E a c" for a b c
    by (rule keys_grow_trans)
  show "keys_grow E s (s\<lparr>history := h\<rparr>)" for s h by (simp add: keys_grow_same_file)
  show "k \<in> {''personnel'', ''personnel_news'', ''company_details''} \<Longrightarrow>
        stays (keys_grow E) (save_intermediate_data E c k d)" for k d
    using assms by (rule save_intermediate_data_keys_grow)
qed

lemma run_news_agent_summary_kept:
  assumes "json_roundtrip E"
  shows "stays (summary_kept E x) (run_news_agent E c)"
proof (rule stays_run_news_agent [where R = "summary_kept E x"])
  show "summary_kept E x s s" for s by (simp add: summary_kept_def)
  show "summary_kept E x a b \<Longrightarrow> summary_kept E x b c \<Longrightarrow> summary_kept E x a c" for a b c
    by (simp add: summary_kept_def)
  show "summary_kept E x s (s\<lparr>history := h\<rparr>)" for s h
    using get_company_data_same_file [of "s\<lparr>history := h\<rparr>" s E x]
    by (simp add: summary_kept_def)
  show "k \<in> {''personnel'', ''personnel_news'', ''company_details''} \<Longrightarrow>
        stays (summary_kept E x) (save_intermediate_data E c k d)" for k d
    using save_intermediate_data_summary [OF assms stage_keys_allowed(2)]
    unfolding summary_kept_def [abs_def] .
qed

lemma ref_env_roundtrip: "json_roundtrip ref_env"
  by (simp add: json_roundtrip_def ref_env_def ref_loads_dumps ref_loads_wf)

lemma three_lookups_missing:
  assumes "k \<in> {k1, k2, k3}" and "map_of d k = None"
  shows "\<exists>k'. ebind (dict_getitem d k1) (\<lambda>a. ebind (dict_getitem d k2) (\<lambda>b.
              ebind (dict_getitem d k3) (\<lambda>c. F a b c))) = Inl (KeyError k')"
  using assms
  by (cases "map_of d k1"; cases "map_of d k2"; cases "map_of d k3")
     (auto simp: dict_getitem_def ebind_def)

lemma personnel_news_prompt_missing:
  assumes "k \<in> {''gaming_industry'', ''business_sources'', ''company_channels''}"
    and "map_of sources k = None"
  shows "\<exists>k'. format_prompt_company_personnel_news_prompt company personnel days sources
           = Inl (KeyError k')"
  unfolding format_prompt_company_personnel_news_prompt_def
  using assms by (rule three_lookups_missing)

lemma company_news_prompt_missing:
  assumes "k \<in> {''gaming_industry'', ''business_sources'', ''company_channels''}"
    and "map_of sources k = None"
  shows "\<exists>k'. format_prompt_company_news_prompt company details days sources
           = Inl (KeyError k')"
  unfolding format_prompt_company_news_prompt_def
  using assms by (rule three_lookups_missing)

section \<open>Lemmas: the pipeline returns when the environment cooperates\<close>

lemma returns_then_do:
  assumes "returns I m Q" and "\<And>x. Q x \<Longrightarrow> returns I (f x) Q'"
  shows "returns I (then_do m f) Q'"
  unfolding returns_def
proof (intro allI impI)
  fix s assume "I s"
  with assms(1) obtain x s1 where m: "m s = (Inr x, s1)" and "I s1" and "Q x"
    by (auto simp: returns_def)
  from assms(2) [OF \<open>Q x\<close>] \<open>I s1\<close>
  obtain y s' where "f x s1 = (Inr y, s')" and "I s'" and "Q' y"
    unfolding returns_def by blast
  with m show "\<exists>y s'. then_do m f s = (Inr y, s') \<and> I s' \<and> Q' y"
    by (simp add: then_do_def)
qed

lemma cooperative_later: "cooperative E h \<Longrightarrow> cooperative E (h @ evs)"
  by (simp add: cooperative_def)

lemma admits_record_same_file:
  "company_data_file s' = company_data_file s \<Longrightarrow>
   admits_record (load_company_data E s') c = admits_record (load_company_data E s) c"
  by (simp add: load_company_data_def)

lemma ready_request:
  assumes "ready E c s"
  shows "ready E c (s\<lparr>history := history s @ [request]\<rparr>)"
  using assms cooperative_later [of E "history s" "[request]"]
    admits_record_same_file [of "s\<lparr>history := history s @ [request]\<rparr>" s E c]
  by (simp add: ready_def)

lemma extraction_returns:
  "returns (ready E c) (then_do (client_responses_parse E model input text_format) (dump_parsed E))
     (\<lambda>data. \<exists>w. loads E data = Some w)"
  unfolding returns_def
proof (intro allI impI)
  fix s assume r: "ready E c s"
  let ?req = "ResponsesParse model input text_format"
  from r have "\<exists>v w. responses_parse E (history s @ []) ?req = Inr (Some v) \<and>
      loads E (model_dump_json E v) = Some w"
    unfolding ready_def cooperative_def by blast
  then obtain v w where v: "responses_parse E (history s) ?req = Inr (Some v)"
    and w: "loads E (model_dump_json E v) = Some w" by auto
  have "then_do (client_responses_parse E model input text_format) (dump_parsed E) s
      = (Inr (model_dump_json E v), s\<lparr>history := history s @ [?req]\<rparr>)"
    using v by (simp add: then_do_def client_responses_parse_def dump_parsed_def return_def)
  with w ready_request [OF r, of ?req]
  show "\<exists>x s'. then_do (client_responses_parse E model input text_format) (dump_parsed E) s
      = (Inr x, s') \<and> ready E c s' \<and> (\<exists>w. loads E x = Some w)"
    by simp
qed

lemma chat_returns:
  "returns (ready E c) (client_chat_completions_create E model content) (\<lambda>_. True)"
  unfolding returns_def
proof (intro allI impI)
  fix s assume r: "ready E c s"
  let ?req = "ChatCreate model content"
  from r have "\<exists>t. chat_create E (history s @ []) ?req = Inr t"
    unfolding ready_def cooperative_def by blast
  then obtain t where t: "chat_create E (history s) ?req = Inr t" by auto
  then have "client_chat_completions_create E model content s
      = (Inr t, s\<lparr>history := history s @ [?req]\<rparr>)"
    by (simp add: client_chat_completions_create_def)
  with ready_request [OF r, of ?req]
  show "\<exists>x s'. client_chat_completions_create E model content s = (Inr x, s') \<and> ready E c s' \<and> True"
    by simp
qed

text \<open>A save into a store that can take the record returns and leaves the record there.\<close>

lemma save_intermediate_data_admitted:
  assumes "json_roundtrip E" and "loads E data = Some v"
    and "admits_record (load_company_data E s) c"
  obtains kvs fs where "load_company_data E s = JObj kvs"
    and "map_of kvs c = None \<and> fs = [] \<or> map_of kvs c = Some (JObj fs)"
    and "save_intermediate_data E c k data s =
          (Inr (), s\<lparr>company_data_file :=
             Some (dumps_indent E (JObj (AList.update c (JObj (AList.update k v fs)) kvs)))\<rparr>)"
    and "load_company_data E (s\<lparr>company_data_file :=
             Some (dumps_indent E (JObj (AList.update c (JObj (AList.update k v fs)) kvs)))\<rparr>)
          = JObj (AList.update c (JObj (AList.update k v fs)) kvs)"
proof -
  from assms(3) obtain kvs where kvs: "load_company_data E s = JObj kvs"
    by (auto simp: admits_record_def split: json.splits)
  define fs where "fs = (case map_of kvs c of Some (JObj fs) \<Rightarrow> fs | _ \<Rightarrow> [])"
  from assms(3) kvs have slot: "map_of kvs c = None \<and> fs = [] \<or> map_of kvs c = Some (JObj fs)"
    by (auto simp: admits_record_def fs_def split: option.splits json.splits)
  let ?all = "JObj (AList.update c (JObj (AList.update k v fs)) kvs)"
  have "wf_json (JObj kvs)" using wf_load_company_data [OF assms(1), of s] kvs by simp
  moreover have "wf_json v" using assms(1,2) by (rule wf_json_loads)
  ultimately have wf: "wf_json ?all" using slot by (rule wf_record_update)
  have 1: "save_intermediate_data E c k data s =
          (Inr (), s\<lparr>company_data_file := Some (dumps_indent E ?all)\<rparr>)"
    using slot kvs assms(2)
    by (auto simp: save_intermediate_data_def ebind_def in_keys_map_of AList.update_conv')
  have 2: "load_company_data E (s\<lparr>company_data_file := Some (dumps_indent E ?all)\<rparr>) = ?all"
    using assms(1) wf by (rule load_company_data_written)
  from kvs slot 1 2 show ?thesis by (rule that)
qed

lemma save_intermediate_data_returns:
  assumes "json_roundtrip E" and "\<exists>w. loads E data = Some w"
  shows "returns (ready E c) (save_intermediate_data E c k data) (\<lambda>_. True)"
  unfolding returns_def
proof (intro allI impI)
  fix s assume r: "ready E c s"
  from assms(2) obtain v where v: "loads E data = Some v" by blast
  from r have "admits_record (load_company_data E s) c" by (simp add: ready_def)
  with assms(1) v obtain kvs fs where
    run: "save_intermediate_data E c k data s =
          (Inr (), s\<lparr>company_data_file :=
             Some (dumps_indent E (JObj (AList.update c (JObj (AList.update k v fs)) kvs)))\<rparr>)"
    and load: "load_company_data E (s\<lparr>company_data_file :=
             Some (dumps_indent E (JObj (AList.update c (JObj (AList.update k v fs)) kvs)))\<rparr>)
          = JObj (AList.update c (JObj (AList.update k v fs)) kvs)"
    by (rule save_intermediate_data_admitted)
  from load have "admits_record (load_company_data E (s\<lparr>company_data_file :=
             Some (dumps_indent E (JObj (AList.update c (JObj (AList.update k v fs)) kvs)))\<rparr>)) c"
    by (simp add: admits_record_def AList.update_conv')
  with r have "ready E c (s\<lparr>company_data_file :=
             Some (dumps_indent E (JObj (AList.update c (JObj (AList.update k v fs)) kvs)))\<rparr>)"
    by (simp add: ready_def)
  with run show "\<exists>x s'. save_intermediate_data E c k data s = (Inr x, s') \<and> ready E c s' \<and> True"
    by simp
qed

lemma three_lookups_present:
  assumes "map_of d k1 = Some a" and "map_of d k2 = Some b" and "map_of d k3 = Some c"
  shows "ebind (dict_getitem d k1) (\<lambda>a. ebind (dict_getitem d k2) (\<lambda>b.
           ebind (dict_getitem d k3) (\<lambda>c. F a b c))) = F a b c"
  using assms by (simp add: dict_getitem_def ebind_def)

lemma trusted_sources_present:
  "\<exists>a. map_of TRUSTED_NEWS_SOURCES ''gaming_industry'' = Some a"
  "\<exists>a. map_of TRUSTED_NEWS_SOURCES ''business_sources'' = Some a"
  "\<exists>a. map_of TRUSTED_NEWS_SOURCES ''company_channels'' = Some a"
  by (simp_all add: TRUSTED_NEWS_SOURCES_def)

lemma personnel_news_prompt_built:
  "\<exists>input. format_prompt_company_personnel_news_prompt c p d TRUSTED_NEWS_SOURCES = Inr input"
proof -
  from trusted_sources_present obtain a1 a2 a3 where
    "map_of TRUSTED_NEWS_SOURCES ''gaming_industry'' = Some a1"
    "map_of TRUSTED_NEWS_SOURCES ''business_sources'' = Some a2"
    "map_of TRUSTED_NEWS_SOURCES ''company_channels'' = Some a3" by blast
  then show ?thesis
    unfolding format_prompt_company_personnel_news_prompt_def
    by (subst three_lookups_present) (simp_all only: Let_def, blast)
qed

lemma company_news_prompt_built:
  "\<exists>input. format_prompt_company_news_prompt c p d TRUSTED_NEWS_SOURCES = Inr input"
proof -
  from trusted_sources_present obtain a1 a2 a3 where
    "map_of TRUSTED_NEWS_SOURCES ''gaming_industry'' = Some a1"
    "map_of TRUSTED_NEWS_SOURCES ''business_sources'' = Some a2"
    "map_of TRUSTED_NEWS_SOURCES ''company_channels'' = Some a3" by blast
  then show ?thesis
    unfolding format_prompt_company_news_prompt_def
    by (subst three_lookups_present) (simp_all only: Let_def, blast)
qed

lemma run_news_agent_returns:
  assumes "json_roundtrip E"
  shows "returns (ready E c) (run_news_agent E c) (\<lambda>_. True)"
proof -
  have 1: "returns (ready E c) (get_company_personnel E c) (\<lambda>data. \<exists>w. loads E data = Some w)"
    unfolding get_company_personnel_def by (rule extraction_returns)
  have 2: "returns (ready E c)
      (get_company_personnel_news E c p NUMBER_OF_DAYS TRUSTED_NEWS_SOURCES)
      (\<lambda>data. \<exists>w. loads E data = Some w)" for p
    using personnel_news_prompt_built [of c p NUMBER_OF_DAYS] extraction_returns
    by (auto simp: get_company_personnel_news_def)
  have 3: "returns (ready E c) (get_company_details E c) (\<lambda>data. \<exists>w. loads E data = Some w)"
    unfolding get_company_details_def by (rule extraction_returns)
  have 4: "returns (ready E c)
      (get_company_news E c p NUMBER_OF_DAYS TRUSTED_NEWS_SOURCES)
      (\<lambda>_. True)" for p
  proof -
    from company_news_prompt_built [of c p NUMBER_OF_DAYS] obtain input where
      "format_prompt_company_news_prompt c p NUMBER_OF_DAYS TRUSTED_NEWS_SOURCES = Inr input" ..
    with extraction_returns [of E c extraction_MODEL_NAME input CompanyNewsResponse]
    show ?thesis by (auto simp: get_company_news_def returns_def)
  qed
  note save = save_intermediate_data_returns [OF assms]
  show ?thesis
    unfolding run_news_agent_def
    by (rule returns_then_do [OF 1], rule returns_then_do [OF save], assumption,
        rule returns_then_do [OF 2], rule returns_then_do [OF save], assumption,
        rule returns_then_do [OF 3], rule returns_then_do [OF save], assumption,
        rule returns_then_do [OF 4], rule chat_returns)
qed

section \<open>Lemmas: the callers of the pipeline\<close>

lemma stage_step_Inr_file:
  "stage_step E s (Inr x) s' \<Longrightarrow> company_data_file s' = company_data_file s"
  by (auto simp: stage_step_def)

text \<open>After a run that returns, the store holds a record of the company.\<close>

lemma run_news_agent_Inr_has_record:
  assumes rt: "json_roundtrip E" and run: "run_news_agent E c s = (Inr summary, s')"
  shows "has_record (load_company_data E s') c"
proof -
  from run [unfolded run_news_agent_def] obtain p s1 where
    "get_company_personnel E c s = (Inr p, s1)"
    and r1: "then_do (save_intermediate_data E c ''personnel'' p) (\<lambda>_.
     then_do (get_company_personnel_news E c p NUMBER_OF_DAYS TRUSTED_NEWS_SOURCES)
       (\<lambda>personnel_news.
     then_do (save_intermediate_data E c ''personnel_news'' personnel_news) (\<lambda>_.
     then_do (get_company_details E c) (\<lambda>company_details.
     then_do (save_intermediate_data E c ''company_details'' company_details) (\<lambda>_.
     then_do (get_company_news E c company_details NUMBER_OF_DAYS TRUSTED_NEWS_SOURCES)
       (\<lambda>company_news.
     client_chat_completions_create E MODEL_NAME
       (format_prompt c p personnel_news company_details company_news))))))) s1 = (Inr summary, s')"
    by (rule then_do_Inr)
  from r1 obtain u2 s2 where "save_intermediate_data E c ''personnel'' p s1 = (Inr u2, s2)"
    and r2: "then_do (get_company_personnel_news E c p NUMBER_OF_DAYS TRUSTED_NEWS_SOURCES)
       (\<lambda>personnel_news.
     then_do (save_intermediate_data E c ''personnel_news'' personnel_news) (\<lambda>_.
     then_do (get_company_details E c) (\<lambda>company_details.
     then_do (save_intermediate_data E c ''company_details'' company_details) (\<lambda>_.
     then_do (get_company_news E c company_details NUMBER_OF_DAYS TRUSTED_NEWS_SOURCES)
       (\<lambda>company_news.
     client_chat_completions_create E MODEL_NAME
       (format_prompt c p personnel_news company_details company_news)))))) s2 = (Inr summary, s')"
    by (rule then_do_Inr)
  from r2 obtain pn s3 where
    "get_company_personnel_news E c p NUMBER_OF_DAYS TRUSTED_NEWS_SOURCES s2 = (Inr pn, s3)"
    and r3: "then_do (save_intermediate_data E c ''personnel_news'' pn) (\<lambda>_.
     then_do (get_company_details E c) (\<lambda>company_details.
     then_do (save_intermediate_data E c ''company_details'' company_details) (\<lambda>_.
     then_do (get_company_news E c company_details NUMBER_OF_DAYS TRUSTED_NEWS_SOURCES)
       (\<lambda>company_news.
     client_chat_completions_create E MODEL_NAME
       (format_prompt c p pn company_details company_news))))) s3 = (Inr summary, s')"
    by (rule then_do_Inr)
  from r3 obtain u4 s4 where "save_intermediate_data E c ''personnel_news'' pn s3 = (Inr u4, s4)"
    and r4: "then_do (get_company_details E c) (\<lambda>company_details.
     then_do (save_intermediate_data E c ''company_details'' company_details) (\<lambda>_.
     then_do (get_company_news E c company_details NUMBER_OF_DAYS TRUSTED_NEWS_SOURCES)
       (\<lambda>company_news.
     client_chat_completions_create E MODEL_NAME
       (format_prompt c p pn company_details company_news)))) s4 = (Inr summary, s')"
    by (rule then_do_Inr)
  from r4 obtain cd s5 where "get_company_details E c s4 = (Inr cd, s5)"
    and r5: "then_do (save_intermediate_data E c ''company_details'' cd) (\<lambda>_.
     then_do (get_company_news E c cd NUMBER_OF_DAYS TRUSTED_NEWS_SOURCES)
       (\<lambda>company_news.
     client_chat_completions_create E MODEL_NAME
       (format_prompt c p pn cd company_news))) s5 = (Inr summary, s')"
    by (rule then_do_Inr)
  from r5 obtain u6 s6 where save: "save_intermediate_data E c ''company_details'' cd s5 = (Inr u6, s6)"
    and r6: "then_do (get_company_news E c cd NUMBER_OF_DAYS TRUSTED_NEWS_SOURCES)
       (\<lambda>company_news.
     client_chat_completions_create E MODEL_NAME
       (format_prompt c p pn cd company_news)) s6 = (Inr summary, s')"
    by (rule then_do_Inr)
  from r6 obtain cn s7 where news: "get_company_news E c cd NUMBER_OF_DAYS TRUSTED_NEWS_SOURCES s6 = (Inr cn, s7)"
    and chat: "client_chat_completions_create E MODEL_NAME (format_prompt c p pn cd cn) s7 = (Inr summary, s')"
    by (rule then_do_Inr)
  from rt save obtain kvs fs v where
    "load_company_data E s6 = JObj (AList.update c (JObj (AList.update ''company_details'' v fs)) kvs)"
    by (rule save_intermediate_data_load)
  then have "has_record (load_company_data E s6) c"
    by (simp add: has_record_def AList.update_conv')
  moreover from news have "company_data_file s7 = company_data_file s6"
    by (intro stage_step_Inr_file get_company_news_step)
  moreover from chat have "company_data_file s' = company_data_file s7"
    by (intro stage_step_Inr_file chat_step)
  ultimately show ?thesis by (simp add: load_company_data_def)
qed

lemma summarise_and_save_raised:
  "callback c s = (Inl e, s1) \<Longrightarrow> summarise_and_save callback E c s = (Inl e, s1)"
  by (simp add: summarise_and_save_def then_do_def)

lemma fetch_summary_raised:
  "run_news_agent E c s = (Inl e, s1) \<Longrightarrow>
   fetch_summary E c s = (Inr (), s1\<lparr>st_error := st_error s1 @ [e]\<rparr>)"
  by (simp add: fetch_summary_def try_except_def summarise_and_save_raised show_st_error_def)

lemma refresh_step_raised:
  "callback c s = (Inl e, s1) \<Longrightarrow>
   try_except (summarise_and_save callback E c) (print_scheduler_error c) s
     = (Inr (), s1\<lparr>stdout := stdout s1 @ [(c, e)]\<rparr>)"
  by (simp add: try_except_def summarise_and_save_raised print_scheduler_error_def)

text \<open>
  A run that returns is followed by a save that returns, after which the store holds the
  summary with the time read at the end of the run.
\<close>

lemma summarise_and_save_returned:
  assumes rt: "json_roundtrip E" and run: "run_news_agent E c s = (Inr summary, s2)"
  obtains s3 where "summarise_and_save (run_news_agent E) E c s = (Inr (), s3)"
    and "get_company_data E c s3 = Inr (final_summary E summary s2)"
    and "s3 = s2\<lparr>company_data_file := company_data_file s3\<rparr>"
proof -
  let ?d = "final_summary E summary s2"
  from rt run have "has_record (load_company_data E s2) c" by (rule run_news_agent_Inr_has_record)
  then obtain kvs fs where kvs: "load_company_data E s2 = JObj kvs"
    and fs: "map_of kvs c = Some (JObj fs)"
    and save: "save_company_data E c ?d s2 = (Inr (), s2\<lparr>company_data_file :=
            Some (dumps_indent E (JObj (AList.update c (JObj (AList.update ''final_summary'' ?d fs)) kvs)))\<rparr>)"
    by (rule save_company_data_has_record)
  let ?s3 = "s2\<lparr>company_data_file :=
            Some (dumps_indent E (JObj (AList.update c (JObj (AList.update ''final_summary'' ?d fs)) kvs)))\<rparr>"
  from rt wf_final_summary save obtain kvs' fs' where kvs': "load_company_data E s2 = JObj kvs'"
    and fs': "map_of kvs' c = Some (JObj fs')"
    and load: "load_company_data E ?s3 =
           JObj (AList.update c (JObj (AList.update ''final_summary'' ?d fs')) kvs')"
    by (rule save_company_data_load)
  from kvs' fs' load have "get_company_data E c ?s3 =
      (if c = c \<and> ''final_summary'' = ''final_summary'' then Inr ?d else get_company_data E c s2)"
    by (intro get_company_data_after_update) auto
  then have g: "get_company_data E c ?s3 = Inr ?d" by simp
  have "summarise_and_save (run_news_agent E) E c s = (Inr (), ?s3)"
    using run save by (simp add: summarise_and_save_def then_do_def)
  from this g show ?thesis by (rule that) simp
qed

lemma refresh_all_never_raises: "\<exists>s'. refresh_all callback E wl s = (Inr (), s')"
proof (induction wl arbitrary: s)
  case Nil
  show ?case by (simp add: return_def)
next
  case (Cons c wl)
  obtain r s1 where step: "try_except (summarise_and_save callback E c) (print_scheduler_error c) s = (r, s1)"
    by (cases "try_except (summarise_and_save callback E c) (print_scheduler_error c) s")
  then have "r = Inr ()"
    by (cases rule: try_except_cases) (auto simp: print_scheduler_error_def)
  with step Cons.IH [of s1] show ?case by (simp add: then_do_def)
qed

section \<open>Lemmas: the reference environment\<close>

lemma ref_env_first_run_fails:
  "run_news_agent ref_env c fresh =
     (Inl (RemoteCallFailure ''timeout''), fresh\<lparr>history := [personnel_request c]\<rparr>)"
  by (simp add: run_news_agent_split then_do_def get_company_personnel_def
      client_responses_parse_def personnel_request_def ref_env_def fresh_def)

lemma ref_env_cooperative: "h \<noteq> [] \<Longrightarrow> cooperative ref_env h"
  using ref_loads_dumps [of "JObj []"] by (simp add: cooperative_def ref_env_def)

lemma ref_env_ready: "history s \<noteq> [] \<Longrightarrow> company_data_file s = None \<Longrightarrow> ready ref_env c s"
  by (simp add: ready_def ref_env_cooperative admits_record_def load_company_data_def)

section \<open>Lemmas: the companies a job processes\<close>

lemma no_first_stage_refl: "no_first_stage s s"
  by (simp add: no_first_stage_def first_stage_requests_def)

lemma no_first_stage_trans:
  assumes "no_first_stage a b" and "no_first_stage b c"
  shows "no_first_stage a c"
proof -
  from assms obtain evs1 evs2 where "history b = history a @ evs1" "first_stage_requests evs1 = []"
    "history c = history b @ evs2" "first_stage_requests evs2 = []"
    unfolding no_first_stage_def by blast
  then have "history c = history a @ (evs1 @ evs2)" "first_stage_requests (evs1 @ evs2) = []"
    by (simp_all add: first_stage_requests_def)
  then show ?thesis unfolding no_first_stage_def by blast
qed

lemma no_first_stage_same_history: "history s' = history s \<Longrightarrow> no_first_stage s s'"
  by (simp add: no_first_stage_def first_stage_requests_def)

lemma stage_step_no_first_stage:
  assumes "stage_step E s r s'"
  shows "no_first_stage s s'"
proof -
  from assms consider "s' = s"
    | request where "s' = s\<lparr>history := history s @ [request]\<rparr>" and "\<not> is_first_stage request"
    unfolding stage_step_def by blast
  then show ?thesis
  proof cases
    case 1
    then show ?thesis by (simp add: no_first_stage_refl)
  next
    case 2
    then have "history s' = history s @ [request]" "first_stage_requests [request] = []"
      by (simp_all add: first_stage_requests_def)
    then show ?thesis unfolding no_first_stage_def by blast
  qed
qed

lemma save_company_data_history:
  "save_company_data E c d s = (r, s') \<Longrightarrow> history s' = history s"
  by (cases r) (auto dest: save_company_data_Inl elim: save_company_data_Inr)

lemma after_personnel_no_first_stage: "stays no_first_stage (after_personnel E c p)"
proof (rule stays_after_personnel [where R = no_first_stage and E = E])
  show "no_first_stage s s" for s by (rule no_first_stage_refl)
  show "no_first_stage a b \<Longrightarrow> no_first_stage b c \<Longrightarrow> no_first_stage a c" for a b c
    by (rule no_first_stage_trans)
  show "stage_step E s r s' \<Longrightarrow> no_first_stage s s'" for s r s'
    by (rule stage_step_no_first_stage)
  show "stays no_first_stage (save_intermediate_data E c k d)" for k d
    unfolding stays_def
    by (intro allI impI no_first_stage_same_history save_intermediate_data_history)
qed

lemma processes_then:
  assumes "processes c s s1" and "no_first_stage s1 s'"
  shows "processes c s s'"
proof -
  from assms obtain evs1 evs2 where "history s1 = history s @ personnel_request c # evs1"
    "first_stage_requests evs1 = []" "history s' = history s1 @ evs2" "first_stage_requests evs2 = []"
    unfolding processes_def no_first_stage_def by blast
  then have "history s' = history s @ personnel_request c # (evs1 @ evs2)"
    "first_stage_requests (evs1 @ evs2) = []"
    by (simp_all add: first_stage_requests_def)
  then show ?thesis unfolding processes_def by blast
qed

lemma run_news_agent_processes:
  assumes "run_news_agent E c s = (r, s')"
  shows "processes c s s'"
proof -
  have first: "processes c s s1" if "get_company_personnel E c s = (x, s1)" for x s1
  proof -
    from that have "s1 = s\<lparr>history := history s @ [personnel_request c]\<rparr>"
      by (rule get_company_personnel_step(1))
    then have "history s1 = history s @ personnel_request c # []" by simp
    then show ?thesis unfolding processes_def first_stage_requests_def by fastforce
  qed
  from assms [unfolded run_news_agent_split] show ?thesis
  proof (cases rule: then_do_cases)
    case (raised e)
    then show ?thesis by (intro first)
  next
    case (went_on p s1)
    from went_on(1) have "processes c s s1" by (rule first)
    moreover from after_personnel_no_first_stage went_on(2) have "no_first_stage s1 s'"
      by (rule staysD)
    ultimately show ?thesis by (rule processes_then)
  qed
qed

lemma summarise_and_save_processes:
  assumes "summarise_and_save (run_news_agent E) E c s = (r, s')"
  shows "processes c s s'"
  using assms unfolding summarise_and_save_def
proof (cases rule: then_do_cases)
  case (raised e)
  then show ?thesis by (intro run_news_agent_processes)
next
  case (went_on summary s1)
  from went_on(1) have "processes c s s1" by (rule run_news_agent_processes)
  moreover from went_on(2) have "history s' = history s1" by (rule save_company_data_history)
  ultimately show ?thesis by (auto intro: processes_then no_first_stage_same_history)
qed

lemma refresh_step_processes:
  assumes "try_except (summarise_and_save (run_news_agent E) E c) (print_scheduler_error c) s = (r, s')"
  shows "processes c s s'"
  using assms
proof (cases rule: try_except_cases)
  case (handled e s1)
  from handled(1) have "processes c s s1" by (rule summarise_and_save_processes)
  moreover from handled(2) have "history s' = history s1"
    by (auto simp: print_scheduler_error_def)
  ultimately show ?thesis by (auto intro: processes_then no_first_stage_same_history)
next
  case (passed x)
  from passed(1) show ?thesis by (rule summarise_and_save_processes)
qed

lemma refresh_all_processes:
  assumes "refresh_all (run_news_agent E) E wl s = (r, s')"
  shows "\<exists>evs. history s' = history s @ evs \<and> first_stage_requests evs = map personnel_request wl"
  using assms
proof (induction wl arbitrary: s)
  case Nil
  then show ?case by (simp add: return_def first_stage_requests_def)
next
  case (Cons c wl)
  from Cons.prems [simplified] show ?case
  proof (cases rule: then_do_cases)
    case (raised e)
    then have False
      by (cases rule: try_except_cases) (auto simp: print_scheduler_error_def)
    then show ?thesis ..
  next
    case (went_on x s1)
    from went_on(1) have "processes c s s1" by (rule refresh_step_processes)
    then obtain evs1 where 1: "history s1 = history s @ personnel_request c # evs1"
      "first_stage_requests evs1 = []" unfolding processes_def by blast
    from Cons.IH [OF went_on(2)] obtain evs2 where 2: "history s' = history s1 @ evs2"
      "first_stage_requests evs2 = map personnel_request wl" by blast
    have "is_first_stage (personnel_request c)" by (simp add: personnel_request_def)
    with 1 2 have "history s' = history s @ (personnel_request c # evs1 @ evs2)"
      "first_stage_requests (personnel_request c # evs1 @ evs2) = map personnel_request (c # wl)"
      by (simp_all add: first_stage_requests_def)
    then show ?thesis by blast
  qed
qed

lemma script_run_registers:
  assumes "\<not> scheduler_started a0" and "as_watchlist (load_watchlist E (store a0)) = Some wl0"
    and "script_run E company_input clicked a0 = Some (Inr (), a1)"
  shows "job a1 = Some (if clicked = AddToWatchlist \<and> company_input \<noteq> [] \<and> company_input \<notin> set wl0
                         then wl0 @ [company_input] else wl0)"
  using assms by (auto simp: script_run_def Let_def split: sum.splits if_splits)

section \<open>Lemmas: the shape of the store\<close>

lemma record_store_admits: "record_store all_data \<Longrightarrow> admits_record all_data c"
proof (cases all_data)
  case (JObj kvs)
  assume "record_store all_data"
  with JObj have all: "\<forall>kv \<in> set kvs. is_dict (snd kv)"
    by (simp add: record_store_def list_all_iff)
  show ?thesis
  proof (cases "map_of kvs c")
    case None
    with JObj show ?thesis by (simp add: admits_record_def)
  next
    case (Some v)
    then have "(c, v) \<in> set kvs" by (rule map_of_SomeD)
    with all have "is_dict v" by auto
    then obtain fs where "v = JObj fs" by (cases v) auto
    with JObj Some show ?thesis by (simp add: admits_record_def)
  qed
qed (simp_all add: record_store_def)

lemma record_store_unreadable:
  "unreadable E (company_data_file s) \<Longrightarrow> record_store (load_company_data E s)"
  by (auto simp: unreadable_def load_company_data_def record_store_def split: option.splits)

lemma record_store_update:
  assumes "record_store (JObj kvs)"
  shows "record_store (JObj (AList.update c (JObj fs) kvs))"
proof -
  from assms have "\<forall>kv \<in> set kvs. is_dict (snd kv)"
    by (simp add: record_store_def list_all_iff)
  with set_update_subset [of c "JObj fs" kvs]
  have "\<forall>kv \<in> set (AList.update c (JObj fs) kvs). is_dict (snd kv)" by auto
  then show ?thesis by (simp add: record_store_def list_all_iff)
qed

lemma shape_kept_refl: "shape_kept E s s"
  by (simp add: shape_kept_def)

lemma shape_kept_trans: "shape_kept E a b \<Longrightarrow> shape_kept E b c \<Longrightarrow> shape_kept E a c"
  by (simp add: shape_kept_def)

lemma shape_kept_same_file: "company_data_file s' = company_data_file s \<Longrightarrow> shape_kept E s s'"
  by (simp add: shape_kept_def load_company_data_def)

lemma save_intermediate_data_shape:
  assumes "json_roundtrip E"
  shows "stays (shape_kept E) (save_intermediate_data E c k d)"
  unfolding stays_def
proof (intro allI impI)
  fix s r s' assume run: "save_intermediate_data E c k d s = (r, s')"
  show "shape_kept E s s'"
  proof (cases r)
    case (Inl e)
    with run have "s' = s" by (auto dest: save_intermediate_data_Inl)
    then show ?thesis by (simp add: shape_kept_refl)
  next
    case (Inr u)
    with run have "save_intermediate_data E c k d s = (Inr u, s')" by simp
    with assms obtain kvs fs v where "load_company_data E s = JObj kvs"
      "load_company_data E s' = JObj (AList.update c (JObj (AList.update k v fs)) kvs)"
      by (rule save_intermediate_data_load)
    then show ?thesis by (simp add: shape_kept_def record_store_update)
  qed
qed

lemma save_company_data_shape:
  assumes "json_roundtrip E"
  shows "stays (shape_kept E) (save_company_data E c (final_summary E summary s0))"
  unfolding stays_def
proof (intro allI impI)
  fix s r s' assume run: "save_company_data E c (final_summary E summary s0) s = (r, s')"
  show "shape_kept E s s'"
  proof (cases r)
    case (Inl e)
    with run have "s' = s" by (auto dest: save_company_data_Inl)
    then show ?thesis by (simp add: shape_kept_refl)
  next
    case (Inr u)
    with run have "save_company_data E c (final_summary E summary s0) s = (Inr u, s')" by simp
    with assms wf_final_summary obtain kvs fs where
      "load_company_data E s = JObj kvs"
      "load_company_data E s' = JObj (AList.update c
         (JObj (AList.update ''final_summary'' (final_summary E summary s0) fs)) kvs)"
      by (rule save_company_data_load)
    then show ?thesis by (simp add: shape_kept_def record_store_update)
  qed
qed

text \<open>
  The handler of Fetch Summary and the scheduler's job keep the store a dictionary of
  records, so every store they meet, from the fresh one on, can take a record.
\<close>

lemma callers_keep_shape:
  assumes "json_roundtrip E"
  shows "stays (shape_kept E) (fetch_summary E c)"
    and "stays (shape_kept E) (refresh_all (run_news_agent E) E wl)"
proof -
  note refl = shape_kept_refl [of E] and trans = shape_kept_trans [of E]
  have same: "shape_kept E s (s\<lparr>history := h\<rparr>)" "shape_kept E s (s\<lparr>st_error := x\<rparr>)"
    "shape_kept E s (s\<lparr>stdout := y\<rparr>)" for s h x y
    by (simp_all add: shape_kept_same_file)
  have run: "stays (shape_kept E) (run_news_agent E c)" for c
    using refl trans same(1) save_intermediate_data_shape [OF assms]
    by (rule stays_run_news_agent [where R = "shape_kept E"])
  show "stays (shape_kept E) (fetch_summary E c)"
    using refl trans same(1,2) save_intermediate_data_shape [OF assms]
      save_company_data_shape [OF assms]
    by (rule stays_fetch_summary [where R = "shape_kept E"])
  show "stays (shape_kept E) (refresh_all (run_news_agent E) E wl)"
    using refl trans same(3) run save_company_data_shape [OF assms]
    by (rule stays_refresh_all [where R = "shape_kept E"])
qed

section \<open>Lemmas: the job over a whole watch-list\<close>

lemma then_do_assoc: "then_do (then_do m f) g = then_do m (\<lambda>x. then_do (f x) g)"
  by (auto simp: then_do_def fun_eq_iff split: prod.splits sum.splits)

lemma then_do_return: "then_do (return x) f = f x"
  by (simp add: then_do_def return_def fun_eq_iff)

lemma refresh_all_append:
  "refresh_all callback E (xs @ ys) =
     then_do (refresh_all callback E xs) (\<lambda>_. refresh_all callback E ys)"
  by (induction xs) (simp_all add: then_do_return then_do_assoc)

text \<open>The job over a list, cut at one of its entries.\<close>

lemma refresh_all_split:
  assumes "refresh_all callback E (pre @ c # post) s = (r, s')"
  obtains s1 s3 where "refresh_all callback E pre s = (Inr (), s1)"
    and "try_except (summarise_and_save callback E c) (print_scheduler_error c) s1 = (Inr (), s3)"
    and "refresh_all callback E (pre @ [c]) s = (Inr (), s3)"
    and "refresh_all callback E post s3 = (r, s')"
proof -
  obtain s1 where 1: "refresh_all callback E pre s = (Inr (), s1)"
    using refresh_all_never_raises by blast
  obtain s3 where 2: "refresh_all callback E [c] s1 = (Inr (), s3)"
    using refresh_all_never_raises by blast
  then have step: "try_except (summarise_and_save callback E c) (print_scheduler_error c) s1
      = (Inr (), s3)"
    by (auto simp: then_do_def return_def split: prod.splits sum.splits)
  from 1 2 have 3: "refresh_all callback E (pre @ [c]) s = (Inr (), s3)"
    by (simp only: refresh_all_append) (simp add: then_do_def)
  have "refresh_all callback E (pre @ c # post) s = refresh_all callback E ((pre @ [c]) @ post) s"
    by simp
  also have "\<dots> = refresh_all callback E post s3"
    using 3 by (simp only: refresh_all_append [of callback E "pre @ [c]" post]) (simp add: then_do_def)
  finally have "refresh_all callback E post s3 = (r, s')" using assms by simp
  with 1 step 3 show ?thesis by (rule that)
qed

lemma stays_refresh_all_in:
  assumes refl: "\<And>s. R s s" and trans: "\<And>a b c. R a b \<Longrightarrow> R b c \<Longrightarrow> R a c"
    and out: "\<And>s c e. R s (s\<lparr>stdout := stdout s @ [(c, e)]\<rparr>)"
    and cb: "\<And>c. c \<in> set wl \<Longrightarrow> stays R (callback c)"
    and final: "\<And>c summary s0. c \<in> set wl \<Longrightarrow>
                  stays R (save_company_data E c (final_summary E summary s0))"
  shows "stays R (refresh_all callback E wl)"
  using cb final
proof (induction wl)
  case Nil
  show ?case using refl by (simp add: stays_return)
next
  case (Cons c wl)
  have cb: "stays R (callback c)" by (rule Cons.prems(1)) simp
  have save: "stays R (save_company_data E c (final_summary E summary s0))" for summary s0
    by (rule Cons.prems(2)) simp
  have step: "stays R (try_except (summarise_and_save callback E c) (print_scheduler_error c))"
  proof (rule stays_try_except [of R, OF trans])
    show "stays R (summarise_and_save callback E c)"
      using trans cb save by (rule stays_summarise_and_save [of R])
    show "stays R (print_scheduler_error c e)" for e
      unfolding stays_def
    proof (intro allI impI)
      fix s r s' assume "print_scheduler_error c e s = (r, s')"
      then have "s' = s\<lparr>stdout := stdout s @ [(c, e)]\<rparr>"
        by (auto simp: print_scheduler_error_def)
      then show "R s s'" by (simp add: out)
    qed
  qed
  have rest: "stays R (refresh_all callback E wl)"
  proof (rule Cons.IH)
    show "stays R (callback c')" if "c' \<in> set wl" for c'
      using that by (intro Cons.prems(1)) simp
    show "stays R (save_company_data E c' (final_summary E summary s0))"
      if "c' \<in> set wl" for c' summary s0
      using that by (intro Cons.prems(2)) simp
  qed
  from trans step rest have "stays R (then_do
      (try_except (summarise_and_save callback E c) (print_scheduler_error c))
      (\<lambda>_. refresh_all callback E wl))"
    by (rule stays_then_do [of R])
  then show ?case by simp
qed

lemma log_grows_refl: "log_grows s s"
  by (simp add: log_grows_def)

lemma log_grows_trans: "log_grows a b \<Longrightarrow> log_grows b c \<Longrightarrow> log_grows a c"
  by (auto simp: log_grows_def)

lemma same_but_store_log_grows: "same_but_store s s' \<Longrightarrow> log_grows s s'"
  by (simp add: log_grows_def same_but_store_def)

lemma save_company_data_frame: "stays same_but_store (save_company_data E c d)"
  unfolding stays_def same_but_store_def
proof (intro allI impI)
  fix s r s' assume run: "save_company_data E c d s = (r, s')"
  then have "s' = s\<lparr>company_data_file := company_data_file s'\<rparr>"
    by (cases r) (auto dest: save_company_data_Inl elim: save_company_data_Inr)
  then have "watchlist_file s' = watchlist_file (s\<lparr>company_data_file := company_data_file s'\<rparr>)"
    "stdout s' = stdout (s\<lparr>company_data_file := company_data_file s'\<rparr>)"
    "st_error s' = st_error (s\<lparr>company_data_file := company_data_file s'\<rparr>)" by simp_all
  then show "watchlist_file s' = watchlist_file s \<and> stdout s' = stdout s \<and> st_error s' = st_error s"
    by simp
qed

lemma refresh_all_log_grows: "stays log_grows (refresh_all (run_news_agent E) E wl)"
proof (rule stays_refresh_all_in [where R = log_grows])
  show "log_grows s s" for s by (rule log_grows_refl)
  show "log_grows a b \<Longrightarrow> log_grows b c \<Longrightarrow> log_grows a c" for a b c by (rule log_grows_trans)
  show "log_grows s (s\<lparr>stdout := stdout s @ [(c, e)]\<rparr>)" for s c e
    by (simp add: log_grows_def)
  show "stays log_grows (run_news_agent E c)" for c
    using run_news_agent_frame [of E c] by (auto simp: stays_def intro: same_but_store_log_grows)
  show "stays log_grows (save_company_data E c (final_summary E summary s0))" for c summary s0
    using save_company_data_frame [of E c] by (auto simp: stays_def intro: same_but_store_log_grows)
qed

lemma save_company_data_other_summary:
  assumes "json_roundtrip E" and "wf_json d" and "c \<noteq> x"
  shows "stays (summary_kept E x) (save_company_data E c d)"
  unfolding stays_def
proof (intro allI impI)
  fix s r s' assume run: "save_company_data E c d s = (r, s')"
  show "summary_kept E x s s'"
  proof (cases r)
    case (Inl e)
    with run have "s' = s" by (auto dest: save_company_data_Inl)
    then show ?thesis by (simp add: summary_kept_def)
  next
    case (Inr u)
    with run have "save_company_data E c d s = (Inr u, s')" by simp
    with assms(1,2) obtain kvs fs where kvs: "load_company_data E s = JObj kvs"
      and fs: "map_of kvs c = Some (JObj fs)"
      and load: "load_company_data E s' =
           JObj (AList.update c (JObj (AList.update ''final_summary'' d fs)) kvs)"
      by (rule save_company_data_load)
    from kvs fs load have "get_company_data E x s' =
        (if x = c \<and> ''final_summary'' = ''final_summary'' then Inr d else get_company_data E x s)"
      by (intro get_company_data_after_update) auto
    with assms(3) show ?thesis by (simp add: summary_kept_def)
  qed
qed

lemma refresh_all_other_summary:
  assumes "json_roundtrip E" and "x \<notin> set wl"
  shows "stays (summary_kept E x) (refresh_all (run_news_agent E) E wl)"
proof (rule stays_refresh_all_in [where R = "summary_kept E x"])
  show "summary_kept E x s s" for s by (simp add: summary_kept_def)
  show "summary_kept E x a b \<Longrightarrow> summary_kept E x b c \<Longrightarrow> summary_kept E x a c" for a b c
    by (simp add: summary_kept_def)
  show "summary_kept E x s (s\<lparr>stdout := stdout s @ [(c, e)]\<rparr>)" for s c e
    using get_company_data_same_file [of "s\<lparr>stdout := stdout s @ [(c, e)]\<rparr>" s E x]
    by (simp add: summary_kept_def)
  show "stays (summary_kept E x) (run_news_agent E c)" for c
    using assms(1) by (rule run_news_agent_summary_kept)
  show "stays (summary_kept E x) (save_company_data E c (final_summary E summary s0))"
    if "c \<in> set wl" for c summary s0
  proof -
    from that assms(2) have "c \<noteq> x" by auto
    with assms(1) wf_final_summary show ?thesis by (rule save_company_data_other_summary)
  qed
qed

text \<open>What the job does at one entry, from the state it has reached there.\<close>

lemma refresh_step_outcome:
  assumes rt: "json_roundtrip E" and run: "run_news_agent E c s1 = (r1, s2)"
    and step: "try_except (summarise_and_save (run_news_agent E) E c) (print_scheduler_error c) s1
      = (Inr (), s3)"
  shows "(\<forall>e. r1 = Inl e \<longrightarrow> s3 = s2\<lparr>stdout := stdout s2 @ [(c, e)]\<rparr>) \<and>
         (\<forall>summary. r1 = Inr summary \<longrightarrow>
            get_company_data E c s3 = Inr (final_summary E summary s2) \<and> stdout s3 = stdout s2 \<and>
            history s3 = history s2)"
proof (intro conjI allI impI)
  fix e assume "r1 = Inl e"
  with run have "run_news_agent E c s1 = (Inl e, s2)" by simp
  then have "try_except (summarise_and_save (run_news_agent E) E c) (print_scheduler_error c) s1
      = (Inr (), s2\<lparr>stdout := stdout s2 @ [(c, e)]\<rparr>)"
    by (rule refresh_step_raised)
  with step show "s3 = s2\<lparr>stdout := stdout s2 @ [(c, e)]\<rparr>" by simp
next
  fix summary assume "r1 = Inr summary"
  with run have "run_news_agent E c s1 = (Inr summary, s2)" by simp
  with rt obtain t where saved: "summarise_and_save (run_news_agent E) E c s1 = (Inr (), t)"
    and got: "get_company_data E c t = Inr (final_summary E summary s2)"
    and t: "t = s2\<lparr>company_data_file := company_data_file t\<rparr>"
    by (rule summarise_and_save_returned)
  from saved step have "s3 = t" by (simp add: try_except_def)
  with got show "get_company_data E c s3 = Inr (final_summary E summary s2)" by simp
  from t have "stdout t = stdout (s2\<lparr>company_data_file := company_data_file t\<rparr>)"
    and "history t = history (s2\<lparr>company_data_file := company_data_file t\<rparr>)" by simp_all
  with \<open>s3 = t\<close> show "stdout s3 = stdout s2" and "history s3 = history s2" by simp_all
qed

section \<open>Properties of the persistence helpers\<close>

text \<open>
  C1, at a store without a record for the company, here the fresh store:
  \<open>save_company_data\<close> raises \<open>KeyError\<close> for the company and writes nothing. It does not
  insert the record, as \<open>save_intermediate_data\<close> does.
\<close>

theorem save_company_data_fresh_raises:
  "save_company_data E ''X'' d fresh = (Inl (KeyError ''X''), fresh)"
  by (simp add: save_company_data_def load_company_data_def fresh_def ebind_def)

text \<open>
  C3: for every list of names, \<open>save_watchlist\<close> followed by \<open>load_watchlist\<close> returns a
  sorted list without duplicates whose set is the set of the names saved; and saving the
  list with one of its names appended stores the same file as saving the list.
\<close>

theorem watchlist_save_load:
  assumes "json_roundtrip E"
  shows "(\<exists>ys. load_watchlist E (save_watchlist E wl s) = JArr (map JStr ys) \<and>
            sorted ys \<and> distinct ys \<and> set ys = set wl) \<and>
         (\<forall>x \<in> set wl. save_watchlist E (wl @ [x]) s = save_watchlist E wl s)"
proof
  have "wf_json (JArr (map JStr (sort (remdups wl))))" by simp
  with assms
  have "load_watchlist E (save_watchlist E wl s) = JArr (map JStr (sort (remdups wl)))"
    by (simp add: json_roundtrip_def load_watchlist_def save_watchlist_def)
  then show "\<exists>ys. load_watchlist E (save_watchlist E wl s) = JArr (map JStr ys) \<and>
      sorted ys \<and> distinct ys \<and> set ys = set wl"
    by (intro exI [of _ "sort (remdups wl)"]) simp
next
  show "\<forall>x \<in> set wl. save_watchlist E (wl @ [x]) s = save_watchlist E wl s"
  proof
    fix x assume "x \<in> set wl"
    then have "set (wl @ [x]) = set wl" by auto
    then have "sort (remdups (wl @ [x])) = sort (remdups wl)"
      by (metis sorted_list_of_set_sort_remdups)
    then show "save_watchlist E (wl @ [x]) s = save_watchlist E wl s"
      by (simp add: save_watchlist_def)
  qed
qed

theorem watchlist_save_load_witness:
  "json_roundtrip ref_env \<and>
   load_watchlist ref_env (save_watchlist ref_env [''Bolt'', ''Acme'', ''Bolt''] fresh)
     = JArr [JStr ''Acme'', JStr ''Bolt''] \<and>
   save_watchlist ref_env ([''Bolt'', ''Acme'', ''Bolt''] @ [''Acme'']) fresh
     = save_watchlist ref_env [''Bolt'', ''Acme'', ''Bolt''] fresh"
proof -
  from watchlist_save_load [OF ref_env_roundtrip, of "[''Bolt'', ''Acme'', ''Bolt'']" fresh]
  obtain ys where ys: "load_watchlist ref_env (save_watchlist ref_env [''Bolt'', ''Acme'', ''Bolt''] fresh)
        = JArr (map JStr ys)" "sorted ys" "distinct ys" "set ys = set [''Bolt'', ''Acme'', ''Bolt'']"
    and app: "save_watchlist ref_env ([''Bolt'', ''Acme'', ''Bolt''] @ [''Acme'']) fresh
        = save_watchlist ref_env [''Bolt'', ''Acme'', ''Bolt''] fresh"
    by auto
  have "ys = sorted_list_of_set (set ys)"
    using ys(2,3) by (simp add: sorted_list_of_set.idem_if_sorted_distinct)
  also have "\<dots> = sorted_list_of_set (set [''Bolt'', ''Acme'', ''Bolt''])"
    by (simp only: ys(4))
  also have "\<dots> = sort (remdups [''Bolt'', ''Acme'', ''Bolt''])"
    by (rule sorted_list_of_set_sort_remdups)
  also have "\<dots> = [''Acme'', ''Bolt'']" by simp
  finally have "ys = [''Acme'', ''Bolt'']" .
  with ys(1) app ref_env_roundtrip show ?thesis by simp
qed

text \<open>
  C4: when the text passed to \<open>save_intermediate_data\<close> is the serialisation of \<open>v\<close>, and the
  store is one that can take a record of the company (the file is missing or does not
  parse, or it holds a dictionary in which the company has no entry or a dictionary as
  entry), the save returns and the store loaded afterwards holds \<open>v\<close> under the key of the
  company's record. Every store of the data model can take the record
  (\<open>record_store_admits\<close>), and the callers keep the store one of the data model
  (\<open>callers_keep_shape\<close>).
\<close>

theorem save_intermediate_roundtrip:
  assumes "json_roundtrip E" and "loads E data = Some v"
    and "admits_record (load_company_data E s) c"
  shows "\<exists>s'. save_intermediate_data E c k data s = (Inr (), s') \<and>
     ebind (py_getitem (load_company_data E s') c) (\<lambda>record. py_getitem record k) = Inr v"
proof -
  from assms obtain kvs fs where
    run: "save_intermediate_data E c k data s =
          (Inr (), s\<lparr>company_data_file :=
             Some (dumps_indent E (JObj (AList.update c (JObj (AList.update k v fs)) kvs)))\<rparr>)"
    and load: "load_company_data E (s\<lparr>company_data_file :=
             Some (dumps_indent E (JObj (AList.update c (JObj (AList.update k v fs)) kvs)))\<rparr>)
          = JObj (AList.update c (JObj (AList.update k v fs)) kvs)"
    by (rule save_intermediate_data_admitted)
  from load have "ebind (py_getitem (load_company_data E (s\<lparr>company_data_file :=
             Some (dumps_indent E (JObj (AList.update c (JObj (AList.update k v fs)) kvs)))\<rparr>)) c)
        (\<lambda>record. py_getitem record k) = Inr v"
    by (simp add: ebind_def AList.update_conv')
  with run show ?thesis by simp
qed

theorem save_intermediate_roundtrip_witness:
  "json_roundtrip ref_env \<and> loads ref_env (ref_dumps (JArr [JStr ''Ann''])) = Some (JArr [JStr ''Ann'']) \<and>
   admits_record (load_company_data ref_env fresh) ''Acme'' \<and>
   (\<exists>s'. save_intermediate_data ref_env ''Acme'' ''personnel'' (ref_dumps (JArr [JStr ''Ann''])) fresh
            = (Inr (), s') \<and>
      ebind (py_getitem (load_company_data ref_env s') ''Acme'') (\<lambda>record. py_getitem record ''personnel'')
            = Inr (JArr [JStr ''Ann'']))"
proof -
  have l: "loads ref_env (ref_dumps (JArr [JStr ''Ann''])) = Some (JArr [JStr ''Ann''])"
    using ref_loads_dumps [of "JArr [JStr ''Ann'']"] by (simp add: ref_env_def)
  have a: "admits_record (load_company_data ref_env fresh) ''Acme''"
    by (simp add: admits_record_def load_company_data_def fresh_def)
  from save_intermediate_roundtrip [OF ref_env_roundtrip l a, of "''personnel''"]
  show ?thesis using l a ref_env_roundtrip by blast
qed



text \<open>
  C10: when the text passed to \<open>save_intermediate_data\<close> is not valid JSON, the call raises
  and leaves the whole state, the company-data file in it, as it was, whatever the store
  holds.
\<close>

theorem save_intermediate_invalid_json:
  "loads E data = None \<Longrightarrow> \<exists>e. save_intermediate_data E c k data s = (Inl e, s)"
  by (auto simp: save_intermediate_data_def Let_def ebind_def split: sum.splits)

theorem save_intermediate_invalid_json_witness:
  "loads ref_env ''<html>'' = None \<and>
   (\<exists>e. save_intermediate_data ref_env ''Acme'' ''personnel'' ''<html>'' fresh = (Inl e, fresh))"
proof -
  have 1: "loads ref_env ''<html>'' = None" by (simp add: ref_env_def ref_loads_def)
  from save_intermediate_invalid_json [OF 1] 1 show ?thesis by blast
qed

text \<open>
  C7: when one of the three categories that the news prompts read is missing from the
  trusted sources, building the personnel-news prompt and building the company-news prompt
  raise \<open>KeyError\<close> instead of returning a prompt, and the stages that build them raise it
  before any request is sent.
\<close>

theorem news_prompt_missing_category:
  assumes "k \<in> {''gaming_industry'', ''business_sources'', ''company_channels''}"
    and "map_of sources k = None"
  shows "(\<exists>k'. format_prompt_company_personnel_news_prompt company personnel days sources
            = Inl (KeyError k')) \<and>
         (\<exists>k'. format_prompt_company_news_prompt company company_details days sources
            = Inl (KeyError k')) \<and>
         (\<exists>k'. get_company_personnel_news E company personnel days sources s
            = (Inl (KeyError k'), s)) \<and>
         (\<exists>k'. get_company_news E company company_details days sources s
            = (Inl (KeyError k'), s))"
proof -
  from assms obtain k1 where 1: "format_prompt_company_personnel_news_prompt company personnel days sources
      = Inl (KeyError k1)"
    using personnel_news_prompt_missing by blast
  from assms obtain k2 where 2: "format_prompt_company_news_prompt company company_details days sources
      = Inl (KeyError k2)"
    using company_news_prompt_missing by blast
  from 1 have "get_company_personnel_news E company personnel days sources s = (Inl (KeyError k1), s)"
    by (simp add: get_company_personnel_news_def throw_def)
  moreover from 2 have "get_company_news E company company_details days sources s = (Inl (KeyError k2), s)"
    by (simp add: get_company_news_def throw_def)
  ultimately show ?thesis using 1 2 by blast
qed

theorem news_prompt_missing_category_witness:
  "''company_channels'' \<in> {''gaming_industry'', ''business_sources'', ''company_channels''} \<and>
   map_of [(''gaming_industry'', [''IGN'']), (''business_sources'', [''Reuters''])] ''company_channels'' = None \<and>
   (\<exists>k'. format_prompt_company_personnel_news_prompt ''Acme'' ''[]'' 180
      [(''gaming_industry'', [''IGN'']), (''business_sources'', [''Reuters''])] = Inl (KeyError k')) \<and>
   (\<exists>k'. format_prompt_company_news_prompt ''Acme'' ''{}'' 180
      [(''gaming_industry'', [''IGN'']), (''business_sources'', [''Reuters''])] = Inl (KeyError k'))"
proof -
  have 1: "''company_channels'' \<in> {''gaming_industry'', ''business_sources'', ''company_channels''}"
    by simp
  have 2: "map_of [(''gaming_industry'', [''IGN'']), (''business_sources'', [''Reuters''])]
      ''company_channels'' = None" by simp
  from news_prompt_missing_category [OF 1 2, of "''Acme''" "''[]''" 180 "''{}''" ref_env fresh]
  show ?thesis using 1 2 by blast
qed

section \<open>Properties of the pipeline and its callers\<close>

text \<open>
  C2: a run of the pipeline stops at a failure: a request of the run that the service fails
  is the last request the run sends, and the run raises. When the run raises, neither
  caller saves a final summary: the handler of Fetch Summary ends in the state the run has
  left, with the error shown on the page, the scheduler's job for the company ends in that
  state with the error printed, and the final summary that the store holds for the company
  is the one it held before the run.
\<close>

theorem pipeline_failure_stops:
  assumes "json_roundtrip E" and "run_news_agent E c s = (r, s1)"
  shows "stops_at_failure E s r s1 \<and>
         (\<forall>e. r = Inl e \<longrightarrow>
            fetch_summary E c s = (Inr (), s1\<lparr>st_error := st_error s1 @ [e]\<rparr>) \<and>
            refresh_all (run_news_agent E) E [c] s
              = (Inr (), s1\<lparr>stdout := stdout s1 @ [(c, e)]\<rparr>) \<and>
            get_company_data E c s1 = get_company_data E c s)"
proof (intro conjI allI impI)
  from fail_stop_run_news_agent assms(2) show "stops_at_failure E s r s1" by (rule fail_stopD)
next
  fix e assume "r = Inl e"
  with assms(2) have run: "run_news_agent E c s = (Inl e, s1)" by simp
  then show "fetch_summary E c s = (Inr (), s1\<lparr>st_error := st_error s1 @ [e]\<rparr>)"
    by (rule fetch_summary_raised)
  from run have "try_except (summarise_and_save (run_news_agent E) E c) (print_scheduler_error c) s
      = (Inr (), s1\<lparr>stdout := stdout s1 @ [(c, e)]\<rparr>)"
    by (rule refresh_step_raised)
  then show "refresh_all (run_news_agent E) E [c] s = (Inr (), s1\<lparr>stdout := stdout s1 @ [(c, e)]\<rparr>)"
    by (simp add: then_do_def return_def)
  from run_news_agent_summary_kept [OF assms(1)] run have "summary_kept E c s s1"
    by (rule staysD)
  then show "get_company_data E c s1 = get_company_data E c s" by (simp add: summary_kept_def)
qed

theorem pipeline_failure_stops_witness:
  "json_roundtrip ref_env \<and>
   run_news_agent ref_env ''Acme Games'' fresh
     = (Inl (RemoteCallFailure ''timeout''), fresh\<lparr>history := [personnel_request ''Acme Games'']\<rparr>) \<and>
   request_failed ref_env [] (personnel_request ''Acme Games'') \<and>
   stops_at_failure ref_env fresh (Inl (RemoteCallFailure ''timeout'') :: error + string)
     (fresh\<lparr>history := [personnel_request ''Acme Games'']\<rparr>) \<and>
   fetch_summary ref_env ''Acme Games'' fresh
     = (Inr (), fresh\<lparr>history := [personnel_request ''Acme Games''],
                       st_error := [RemoteCallFailure ''timeout'']\<rparr>) \<and>
   refresh_all (run_news_agent ref_env) ref_env [''Acme Games''] fresh
     = (Inr (), fresh\<lparr>history := [personnel_request ''Acme Games''],
                       stdout := [(''Acme Games'', RemoteCallFailure ''timeout'')]\<rparr>) \<and>
   get_company_data ref_env ''Acme Games'' (fresh\<lparr>history := [personnel_request ''Acme Games'']\<rparr>)
     = get_company_data ref_env ''Acme Games'' fresh"
proof -
  note run = ref_env_first_run_fails [of "''Acme Games''"]
  have f: "request_failed ref_env [] (personnel_request ''Acme Games'')"
    by (simp add: request_failed_def personnel_request_def ref_env_def)
  from pipeline_failure_stops [OF ref_env_roundtrip run] run f ref_env_roundtrip
  show ?thesis by (simp add: fresh_def)
qed

text \<open>
  C5: every write of the reference flow, by the handler of Fetch Summary (the three
  intermediate saves and the final save) or by the scheduler's job over any watch-list,
  adds to the records of the persisted store only keys among \<open>personnel\<close>,
  \<open>personnel_news\<close>, \<open>company_details\<close> and \<open>final_summary\<close>. So records whose keys are
  among these keep their keys among these, and hold no key \<open>company_news\<close> afterwards.
\<close>

theorem record_keys_invariant:
  assumes "json_roundtrip E" and "fetch_summary E c s = (r1, s1)"
    and "refresh_all (run_news_agent E) E wl s = (r2, s2)"
  shows "(\<forall>x. record_keys E s1 x \<subseteq> record_keys E s x \<union> allowed_keys) \<and>
         (\<forall>x. record_keys E s2 x \<subseteq> record_keys E s x \<union> allowed_keys) \<and>
         ((\<forall>x. record_keys E s x \<subseteq> allowed_keys) \<longrightarrow>
            (\<forall>x. record_keys E s1 x \<subseteq> allowed_keys \<and> ''company_news'' \<notin> record_keys E s1 x) \<and>
            (\<forall>x. record_keys E s2 x \<subseteq> allowed_keys \<and> ''company_news'' \<notin> record_keys E s2 x))"
proof -
  note refl = keys_grow_refl [of E] and trans = keys_grow_trans [of E]
  have same: "keys_grow E s (s\<lparr>history := h\<rparr>)" "keys_grow E s (s\<lparr>st_error := x\<rparr>)"
    "keys_grow E s (s\<lparr>stdout := y\<rparr>)" for s h x y
    by (simp_all add: keys_grow_same_file)
  have "stays (keys_grow E) (fetch_summary E c)"
    using refl trans same(1,2) save_intermediate_data_keys_grow [OF assms(1)]
      save_company_data_keys_grow [OF assms(1)]
    by (rule stays_fetch_summary [where R = "keys_grow E"])
  with assms(2) have 1: "keys_grow E s s1" by (auto dest: staysD)
  have "stays (keys_grow E) (refresh_all (run_news_agent E) E wl)"
    using refl trans same(3) run_news_agent_keys_grow [OF assms(1)]
      save_company_data_keys_grow [OF assms(1)]
    by (rule stays_refresh_all [where R = "keys_grow E"])
  with assms(3) have 2: "keys_grow E s s2" by (auto dest: staysD)
  have "''company_news'' \<notin> allowed_keys" by (simp add: allowed_keys_def)
  with 1 2 show ?thesis unfolding keys_grow_def by blast
qed

theorem record_keys_invariant_witness:
  "json_roundtrip ref_env \<and>
   (\<exists>s1 s2.
      fetch_summary ref_env ''Bolt Studios'' (fresh\<lparr>history := [personnel_request ''Acme Games'']\<rparr>)
        = (Inr (), s1) \<and>
      refresh_all (run_news_agent ref_env) ref_env [''Acme Games'', ''Bolt Studios'']
        (fresh\<lparr>history := [personnel_request ''Acme Games'']\<rparr>) = (Inr (), s2) \<and>
      (\<exists>summary. get_company_data ref_env ''Bolt Studios'' s1 = Inr (JObj summary)) \<and>
      record_keys ref_env s1 ''Bolt Studios'' \<subseteq> allowed_keys \<and>
      ''company_news'' \<notin> record_keys ref_env s1 ''Bolt Studios'' \<and>
      record_keys ref_env s2 ''Acme Games'' \<subseteq> allowed_keys \<and>
      ''company_news'' \<notin> record_keys ref_env s2 ''Acme Games'')"
proof -
  let ?s = "fresh\<lparr>history := [personnel_request ''Acme Games'']\<rparr>"
  have "ready ref_env ''Bolt Studios'' ?s" by (rule ref_env_ready) (simp_all add: fresh_def)
  with run_news_agent_returns [OF ref_env_roundtrip, of "''Bolt Studios''"]
  obtain summary s' where run: "run_news_agent ref_env ''Bolt Studios'' ?s = (Inr summary, s')"
    unfolding returns_def by blast
  with ref_env_roundtrip obtain s1 where
    saved: "summarise_and_save (run_news_agent ref_env) ref_env ''Bolt Studios'' ?s = (Inr (), s1)"
    and got: "get_company_data ref_env ''Bolt Studios'' s1 = Inr (final_summary ref_env summary s')"
    by (rule summarise_and_save_returned)
  from saved have fetch: "fetch_summary ref_env ''Bolt Studios'' ?s = (Inr (), s1)"
    by (simp add: fetch_summary_def try_except_def)
  obtain s2 where job: "refresh_all (run_news_agent ref_env) ref_env
      [''Acme Games'', ''Bolt Studios''] ?s = (Inr (), s2)"
    using refresh_all_never_raises by blast
  have before: "\<forall>x. record_keys ref_env ?s x \<subseteq> allowed_keys"
    by (simp add: record_keys_def load_company_data_def fresh_def)
  from record_keys_invariant [OF ref_env_roundtrip fetch job] before
  have "record_keys ref_env s1 ''Bolt Studios'' \<subseteq> allowed_keys"
    "''company_news'' \<notin> record_keys ref_env s1 ''Bolt Studios''"
    "record_keys ref_env s2 ''Acme Games'' \<subseteq> allowed_keys"
    "''company_news'' \<notin> record_keys ref_env s2 ''Acme Games''"
    by blast+
  with fetch job got ref_env_roundtrip show ?thesis
    by (auto simp: final_summary_def)
qed

text \<open>
  C6: the job over any watch-list returns without raising, and processes every entry of
  the list, in order, whatever happened at the entries before it. At each entry the
  pipeline runs from the state the job has reached: when it raises, the job prints the
  line for the company and this error and goes on; when it returns, the store holds for the
  company the summary returned, with the time read at the end of that run, and still holds
  it when the job ends, unless the company comes again later in the list. Whatever the
  callback and the watch-list, the job itself never raises.
\<close>

theorem scheduler_continues_after_failure:
  assumes "json_roundtrip E" and "refresh_all (run_news_agent E) E wl s = (r, s')"
  shows "r = Inr () \<and>
         first_stage_requests (requests_between s s') = map personnel_request wl \<and>
         (\<forall>pre c post. wl = pre @ c # post \<longrightarrow>
            (\<exists>s1 r1 s2 s3.
               refresh_all (run_news_agent E) E pre s = (Inr (), s1) \<and>
               run_news_agent E c s1 = (r1, s2) \<and>
               refresh_all (run_news_agent E) E (pre @ [c]) s = (Inr (), s3) \<and>
               (\<forall>e. r1 = Inl e \<longrightarrow>
                  s3 = s2\<lparr>stdout := stdout s2 @ [(c, e)]\<rparr> \<and> (c, e) \<in> set (stdout s')) \<and>
               (\<forall>summary. r1 = Inr summary \<longrightarrow>
                  get_company_data E c s3 = Inr (final_summary E summary s2) \<and>
                  (c \<notin> set post \<longrightarrow>
                     get_company_data E c s' = Inr (final_summary E summary s2))))) \<and>
         (\<forall>callback wl0 s0. \<exists>s''. refresh_all callback E wl0 s0 = (Inr (), s''))"
proof (intro conjI allI impI)
  from refresh_all_never_raises [of "run_news_agent E" E wl s] assms(2)
  show "r = Inr ()" by simp
  from assms(2) obtain evs where "history s' = history s @ evs"
    "first_stage_requests evs = map personnel_request wl"
    using refresh_all_processes by blast
  then show "first_stage_requests (requests_between s s') = map personnel_request wl"
    by (simp add: requests_between_def)
next
  fix pre c post assume "wl = pre @ c # post"
  with assms(2) obtain s1 s3 where
    pre: "refresh_all (run_news_agent E) E pre s = (Inr (), s1)"
    and step: "try_except (summarise_and_save (run_news_agent E) E c) (print_scheduler_error c) s1
        = (Inr (), s3)"
    and upto: "refresh_all (run_news_agent E) E (pre @ [c]) s = (Inr (), s3)"
    and post: "refresh_all (run_news_agent E) E post s3 = (r, s')"
    by (auto elim: refresh_all_split)
  obtain r1 s2 where run: "run_news_agent E c s1 = (r1, s2)"
    by (cases "run_news_agent E c s1")
  note outcome = refresh_step_outcome [OF assms(1) run step]
  from refresh_all_log_grows post have grows: "log_grows s3 s'" by (rule staysD)
  have raised: "s3 = s2\<lparr>stdout := stdout s2 @ [(c, e)]\<rparr> \<and> (c, e) \<in> set (stdout s')"
    if "r1 = Inl e" for e
  proof -
    from outcome that have s3: "s3 = s2\<lparr>stdout := stdout s2 @ [(c, e)]\<rparr>" by blast
    then have "stdout s3 = stdout s2 @ [(c, e)]" by simp
    with grows have "(c, e) \<in> set (stdout s')" by (auto simp: log_grows_def)
    with s3 show ?thesis by simp
  qed
  have returned: "get_company_data E c s3 = Inr (final_summary E summary s2) \<and>
      (c \<notin> set post \<longrightarrow> get_company_data E c s' = Inr (final_summary E summary s2))"
    if "r1 = Inr summary" for summary
  proof (intro conjI impI)
    from outcome that show got: "get_company_data E c s3 = Inr (final_summary E summary s2)"
      by blast
    assume "c \<notin> set post"
    with assms(1) have "stays (summary_kept E c) (refresh_all (run_news_agent E) E post)"
      by (rule refresh_all_other_summary)
    from this post have "summary_kept E c s3 s'" by (rule staysD)
    with got show "get_company_data E c s' = Inr (final_summary E summary s2)"
      by (simp add: summary_kept_def)
  qed
  from pre run upto raised returned
  show "\<exists>s1 r1 s2 s3.
               refresh_all (run_news_agent E) E pre s = (Inr (), s1) \<and>
               run_news_agent E c s1 = (r1, s2) \<and>
               refresh_all (run_news_agent E) E (pre @ [c]) s = (Inr (), s3) \<and>
               (\<forall>e. r1 = Inl e \<longrightarrow>
                  s3 = s2\<lparr>stdout := stdout s2 @ [(c, e)]\<rparr> \<and> (c, e) \<in> set (stdout s')) \<and>
               (\<forall>summary. r1 = Inr summary \<longrightarrow>
                  get_company_data E c s3 = Inr (final_summary E summary s2) \<and>
                  (c \<notin> set post \<longrightarrow>
                     get_company_data E c s' = Inr (final_summary E summary s2)))"
    by blast
next
  fix callback wl0 s0
  show "\<exists>s''. refresh_all callback E wl0 s0 = (Inr (), s'')"
    by (rule refresh_all_never_raises)
qed

theorem scheduler_continues_after_failure_witness:
  "json_roundtrip ref_env \<and>
   run_news_agent ref_env ''Acme Games'' fresh
     = (Inl (RemoteCallFailure ''timeout''), fresh\<lparr>history := [personnel_request ''Acme Games'']\<rparr>) \<and>
   (\<exists>s'. refresh_all (run_news_agent ref_env) ref_env [''Acme Games'', ''Bolt Studios''] fresh
            = (Inr (), s') \<and>
      first_stage_requests (requests_between fresh s')
        = [personnel_request ''Acme Games'', personnel_request ''Bolt Studios''] \<and>
      (''Acme Games'', RemoteCallFailure ''timeout'') \<in> set (stdout s') \<and>
      (\<exists>summary s2.
         run_news_agent ref_env ''Bolt Studios''
           (fresh\<lparr>history := [personnel_request ''Acme Games''],
                  stdout := [(''Acme Games'', RemoteCallFailure ''timeout'')]\<rparr>) = (Inr summary, s2) \<and>
         get_company_data ref_env ''Bolt Studios'' s'
           = Inr (JObj [(''summary'', JStr summary),
                        (''timestamp'', JStr (now_isoformat ref_env (history s2)))])))"
proof -
  let ?wl = "[''Acme Games'', ''Bolt Studios'']"
  let ?s1 = "fresh\<lparr>history := [personnel_request ''Acme Games''],
                   stdout := [(''Acme Games'', RemoteCallFailure ''timeout'')]\<rparr>"
  note a = ref_env_first_run_fails [of "''Acme Games''"]
  obtain s' where job: "refresh_all (run_news_agent ref_env) ref_env ?wl fresh = (Inr (), s')"
    using refresh_all_never_raises by blast
  note facts = scheduler_continues_after_failure [OF ref_env_roundtrip job]
  from facts have reqs: "first_stage_requests (requests_between fresh s')
      = [personnel_request ''Acme Games'', personnel_request ''Bolt Studios'']" by simp
  note split = facts [THEN conjunct2, THEN conjunct2, THEN conjunct1, rule_format]
  have "?wl = [] @ ''Acme Games'' # [''Bolt Studios'']" by simp
  from split [OF this] obtain u1 r1 u2 where
    "refresh_all (run_news_agent ref_env) ref_env [] fresh = (Inr (), u1)"
    and "run_news_agent ref_env ''Acme Games'' u1 = (r1, u2)"
    and "\<forall>e. r1 = Inl e \<longrightarrow> (''Acme Games'', e) \<in> set (stdout s')"
    by blast
  with a have logged: "(''Acme Games'', RemoteCallFailure ''timeout'') \<in> set (stdout s')"
    by (simp add: return_def)
  have first: "refresh_all (run_news_agent ref_env) ref_env [''Acme Games''] fresh = (Inr (), ?s1)"
    using refresh_step_raised [of "run_news_agent ref_env" "''Acme Games''" fresh _ _ ref_env, OF a]
    by (simp add: then_do_def return_def fresh_def)
  have "ready ref_env ''Bolt Studios'' ?s1" by (rule ref_env_ready) (simp_all add: fresh_def)
  with run_news_agent_returns [OF ref_env_roundtrip, of "''Bolt Studios''"]
  obtain summary s2 where b: "run_news_agent ref_env ''Bolt Studios'' ?s1 = (Inr summary, s2)"
    unfolding returns_def by blast
  have "?wl = [''Acme Games''] @ ''Bolt Studios'' # []" by simp
  from split [OF this] obtain t1 q1 t2 where
    "refresh_all (run_news_agent ref_env) ref_env [''Acme Games''] fresh = (Inr (), t1)"
    and "run_news_agent ref_env ''Bolt Studios'' t1 = (q1, t2)"
    and "\<forall>summary. q1 = Inr summary \<longrightarrow>
           get_company_data ref_env ''Bolt Studios'' s' = Inr (final_summary ref_env summary t2)"
    by auto
  with first b have "get_company_data ref_env ''Bolt Studios'' s' = Inr (final_summary ref_env summary s2)"
    by simp
  with a job reqs logged b ref_env_roundtrip show ?thesis
    by (auto simp: final_summary_def)
qed

section \<open>Properties of the scheduler's registration\<close>

text \<open>
  What the trigger does: the job processes, in order, the companies of the watch-list it
  was registered with, whatever the watch-list file holds at that time; the job does not
  raise and keeps its list. A run of the script in a session whose scheduler has been
  started leaves the registered list as it is; the run that starts the scheduler registers
  the list it has loaded, with the name it has added.
\<close>

theorem job_iterates_registered_watchlist:
  assumes "job a = Some wl" and "weekly_trigger E a = (r, a')"
  shows "r = Inr () \<and>
         first_stage_requests (requests_between (store a) (store a')) = map personnel_request wl \<and>
         job a' = Some wl \<and>
         (\<forall>company_input clicked r' a''.
            scheduler_started a \<longrightarrow> script_run E company_input clicked a = Some (r', a'') \<longrightarrow>
            job a'' = Some wl \<and> scheduler_started a'') \<and>
         (\<forall>company_input clicked a0 wl0 a1.
            \<not> scheduler_started a0 \<longrightarrow> as_watchlist (load_watchlist E (store a0)) = Some wl0 \<longrightarrow>
            script_run E company_input clicked a0 = Some (Inr (), a1) \<longrightarrow>
            job a1 = Some (if clicked = AddToWatchlist \<and> company_input \<noteq> []
                                \<and> company_input \<notin> set wl0
                           then wl0 @ [company_input] else wl0))"
proof (intro conjI allI impI)
  obtain r0 s' where run: "refresh_all (run_news_agent E) E wl (store a) = (r0, s')"
    by (cases "refresh_all (run_news_agent E) E wl (store a)")
  with assms have r: "r = r0" and a': "a' = a\<lparr>store := s'\<rparr>"
    by (simp_all add: weekly_trigger_def)
  from refresh_all_never_raises [of "run_news_agent E" E wl "store a"] run r
  show "r = Inr ()" by simp
  from run obtain evs where "history s' = history (store a) @ evs"
    "first_stage_requests evs = map personnel_request wl"
    using refresh_all_processes by blast
  with a'
  show "first_stage_requests (requests_between (store a) (store a')) = map personnel_request wl"
    by (simp add: requests_between_def)
  from a' assms(1) show "job a' = Some wl" by simp
next
  fix company_input clicked r' a''
  assume "scheduler_started a" and "script_run E company_input clicked a = Some (r', a'')"
  with assms(1) show "job a'' = Some wl" and "scheduler_started a''"
    by (auto simp: script_run_def Let_def split: option.splits sum.splits)
next
  fix company_input clicked a0 wl0 a1
  assume "\<not> scheduler_started a0" and "as_watchlist (load_watchlist E (store a0)) = Some wl0"
    and "script_run E company_input clicked a0 = Some (Inr (), a1)"
  then show "job a1 = Some (if clicked = AddToWatchlist \<and> company_input \<noteq> []
                                \<and> company_input \<notin> set wl0
                           then wl0 @ [company_input] else wl0)"
    by (rule script_run_registers)
qed

theorem job_iterates_registered_watchlist_witness:
  "job \<lparr>store = fresh, scheduler_started = True, job = Some [''Acme Games'', ''Bolt Studios'']\<rparr>
     = Some [''Acme Games'', ''Bolt Studios''] \<and>
   (\<exists>a'. weekly_trigger ref_env
       \<lparr>store = fresh, scheduler_started = True, job = Some [''Acme Games'', ''Bolt Studios'']\<rparr>
         = (Inr (), a') \<and>
      first_stage_requests (requests_between fresh (store a'))
         = [personnel_request ''Acme Games'', personnel_request ''Bolt Studios''] \<and>
      job a' = Some [''Acme Games'', ''Bolt Studios''])"
proof -
  let ?a = "\<lparr>store = fresh, scheduler_started = True, job = Some [''Acme Games'', ''Bolt Studios'']\<rparr>"
  have j: "job ?a = Some [''Acme Games'', ''Bolt Studios'']" by simp
  obtain r a' where t: "weekly_trigger ref_env ?a = (r, a')"
    by (cases "weekly_trigger ref_env ?a")
  from job_iterates_registered_watchlist [OF j t] t j show ?thesis by simp
qed

text \<open>
  C9, at a watch-list that grows once the scheduler is running: a first run of the script on
  a fresh store starts the scheduler with the empty watch-list; a second run adds a company
  to the watch-list file; the trigger that follows sends no request, so the job has
  processed no company, while the watch-list file holds one. The job does not iterate the
  watch-list as it is at the trigger, and the company added is never refreshed.
\<close>

theorem job_ignores_later_watchlist:
  "script_run ref_env [] NoClick app_start
     = Some (Inr (), \<lparr>store = fresh, scheduler_started = True, job = Some []\<rparr>) \<and>
   script_run ref_env ''Acme Games'' AddToWatchlist
       \<lparr>store = fresh, scheduler_started = True, job = Some []\<rparr>
     = Some (Inr (), \<lparr>store = save_watchlist ref_env [''Acme Games''] fresh,
                      scheduler_started = True, job = Some []\<rparr>) \<and>
   as_watchlist (load_watchlist ref_env (save_watchlist ref_env [''Acme Games''] fresh))
     = Some [''Acme Games''] \<and>
   weekly_trigger ref_env
       \<lparr>store = save_watchlist ref_env [''Acme Games''] fresh, scheduler_started = True, job = Some []\<rparr>
     = (Inr (), \<lparr>store = save_watchlist ref_env [''Acme Games''] fresh,
                 scheduler_started = True, job = Some []\<rparr>) \<and>
   first_stage_requests
       (requests_between (save_watchlist ref_env [''Acme Games''] fresh)
          (save_watchlist ref_env [''Acme Games''] fresh))
     \<noteq> map personnel_request [''Acme Games'']"
proof (intro conjI)
  show "script_run ref_env [] NoClick app_start
     = Some (Inr (), \<lparr>store = fresh, scheduler_started = True, job = Some []\<rparr>)"
    by (simp add: script_run_def app_start_def load_watchlist_def fresh_def ebind_def)
  have l0: "load_watchlist ref_env fresh = JArr []" by (simp add: load_watchlist_def fresh_def)
  have d: "display_summary ref_env c (save_watchlist ref_env wl fresh) = Inr ()" for c wl
    by (simp add: display_summary_def get_company_data_def load_company_data_def
        save_watchlist_def fresh_def ebind_def)
  show "script_run ref_env ''Acme Games'' AddToWatchlist
       \<lparr>store = fresh, scheduler_started = True, job = Some []\<rparr>
     = Some (Inr (), \<lparr>store = save_watchlist ref_env [''Acme Games''] fresh,
                      scheduler_started = True, job = Some []\<rparr>)"
    by (simp add: script_run_def l0 d ebind_def)
  have "load_watchlist ref_env (save_watchlist ref_env [''Acme Games''] fresh)
      = JArr [JStr ''Acme Games'']"
    using ref_loads_dumps [of "JArr [JStr ''Acme Games'']"]
    by (simp add: load_watchlist_def save_watchlist_def ref_env_def del: ref_dumps.simps)
  then show "as_watchlist (load_watchlist ref_env (save_watchlist ref_env [''Acme Games''] fresh))
     = Some [''Acme Games'']" by simp
  show "weekly_trigger ref_env
       \<lparr>store = save_watchlist ref_env [''Acme Games''] fresh, scheduler_started = True, job = Some []\<rparr>
     = (Inr (), \<lparr>store = save_watchlist ref_env [''Acme Games''] fresh,
                 scheduler_started = True, job = Some []\<rparr>)"
    by (simp add: weekly_trigger_def return_def)
  show "first_stage_requests
       (requests_between (save_watchlist ref_env [''Acme Games''] fresh)
          (save_watchlist ref_env [''Acme Games''] fresh))
     \<noteq> map personnel_request [''Acme Games'']"
    by (simp add: requests_between_def first_stage_requests_def)
qed

end
